theory Spec2Isabelle
  imports Complex_Main
begin

section \<open>Rule model\<close>

text \<open>
  Rules are JSON documents. A condition is an object with a \<open>type\<close> tag and the fields
  of its kind; both evaluators dispatch on the tag with a \<open>switch\<close> that has a
  \<open>default\<close> branch, so the tag is kept as a string and a condition carries every
  field that some kind reads (a kind ignores the fields of the others).
  Quantities and quantity bounds are integers, money amounts are reals (the
  rounding of JavaScript doubles is not modelled). An optional field is an \<open>option\<close>.
\<close>

record condition =
  ctype :: string
  threshold :: int
  amount :: real
  currencyCode :: "string option"
  variantIds :: "string list"
  cmin :: int
  cmax :: "int option"
  productIds :: "string list"
  collectionIds :: "string list"
  productId :: string
  cvalue :: real

record rule_action =
  addVariantId :: string
  action_quantity :: "int option"
  titleOverride :: "string option"

record rule =
  rule_id :: string
  active :: bool
  group :: "string option"
  conditions :: "condition list"
  action :: rule_action

text \<open>JavaScript truthiness of an optional string: present and not empty.\<close>

definition truthy :: "string option \<Rightarrow> bool" where
  "truthy s = (case s of None \<Rightarrow> False | Some t \<Rightarrow> t \<noteq> [])"

section \<open>String helpers\<close>

text \<open>
  \<open>String.prototype.replace\<close> with a string pattern: the first occurrence of the
  pattern is replaced, the rest of the string is kept.
\<close>

fun str_replace :: "string \<Rightarrow> string \<Rightarrow> string \<Rightarrow> string" where
  "str_replace pat rep [] = (if pat = [] then rep else [])"
| "str_replace pat rep (c # cs) =
     (if take (length pat) (c # cs) = pat then rep @ drop (length pat) (c # cs)
      else c # str_replace pat rep cs)"

text \<open>\<open>String.prototype.trim\<close> on the white space of the ASCII range.\<close>

definition is_space :: "char \<Rightarrow> bool" where
  "is_space c = (c \<in> set [CHR '' '', CHR 0x09, CHR 0x0A, CHR 0x0B, CHR 0x0C, CHR 0x0D])"

definition trim :: "string \<Rightarrow> string" where
  "trim s = rev (dropWhile is_space (rev (dropWhile is_space s)))"

text \<open>\<open>String(n)\<close> of a non-negative integer: its decimal digits.\<close>

definition digit_char :: "nat \<Rightarrow> char" where
  "digit_char d = ''0123456789'' ! (d mod 10)"

fun String :: "nat \<Rightarrow> string" where
  "String n = (if n < 10 then [digit_char n] else String (n div 10) @ [digit_char (n mod 10)])"

declare String.simps [simp del]

text \<open>
  \<open>parseInt\<close> without a radix: leading white space is skipped, a sign is read, the
  prefix \<open>0x\<close> or \<open>0X\<close> selects base sixteen, and the value of the longest run of
  digits that follows is returned; \<open>NaN\<close> (\<open>None\<close>) when there is no digit.
\<close>

definition is_digit :: "char \<Rightarrow> bool" where
  "is_digit c = (c \<in> set ''0123456789'')"

definition digit_value :: "char \<Rightarrow> nat" where
  "digit_value c = of_char c - 48"

definition is_hex_digit :: "char \<Rightarrow> bool" where
  "is_hex_digit c = (c \<in> set ''0123456789abcdefABCDEF'')"

definition hex_value :: "char \<Rightarrow> nat" where
  "hex_value c =
     (if is_digit c then of_char c - 48
      else if c \<in> set ''abcdef'' then of_char c - 87
      else of_char c - 55)"

definition parseInt :: "string \<Rightarrow> int option" where
  "parseInt s =
     (let t = dropWhile is_space s;
          neg = (t \<noteq> [] \<and> hd t = CHR ''-'');
          u = (if t \<noteq> [] \<and> (hd t = CHR ''-'' \<or> hd t = CHR ''+'') then tl t else t);
          hex = (take 2 u = ''0x'' \<or> take 2 u = ''0X'');
          ds = (if hex then takeWhile is_hex_digit (drop 2 u) else takeWhile is_digit u);
          n = (if hex then foldl (\<lambda>a c. 16 * a + hex_value c) 0 ds
               else foldl (\<lambda>a c. 10 * a + digit_value c) 0 ds)
      in if ds = [] then None else Some (if neg then - int n else int n))"

section \<open>Transform-time function (cart\_transform\_run.ts)\<close>

text \<open>
  The input of the cart transform: cart lines with their merchandise and cost, and the two
  shop metafields. A merchandise is a product variant (with its id and, when present,
  the id of its product) or something else.
\<close>

datatype merchandise =
  ProductVariant (merch_id: string) (merch_product_id: "string option")
| CustomProduct

record cart_line =
  line_id :: string
  line_quantity :: int
  line_merchandise :: merchandise
  cost_amount :: "real option"
  cost_currencyCode :: string

text \<open>
  \<open>cost_amount\<close> is \<open>parseFloat(line.cost.totalAmount.amount)\<close>, \<open>None\<close> when that is
  \<open>NaN\<close>. The collection index metafield is given as the JSON value it parses to,
  \<open>None\<close> when the metafield is missing, empty or unparseable. \<open>Object.entries\<close>
  of an array pairs each element with its index.
\<close>

datatype json =
  JString string
| JArray "json list"
| JObject "(string \<times> json) list"
| JOther

record transform_input =
  cart_lines :: "cart_line list"
  shop_rules_value :: "string option"
  shop_collectionIndex :: "json option"

typedecl operation

record transform_result =
  operations :: "operation list"

definition NO_CHANGES :: transform_result where
  "NO_CHANGES = \<lparr>operations = []\<rparr>"

fun json_strings :: "json list \<Rightarrow> string list" where
  "json_strings [] = []"
| "json_strings (JString s # js) = s # json_strings js"
| "json_strings (_ # js) = json_strings js"

definition index_entry :: "json \<Rightarrow> string list" where
  "index_entry v =
     (case v of
        JArray xs \<Rightarrow> json_strings xs
      | JObject fs \<Rightarrow> (case map_of fs ''collections'' of Some (JArray xs) \<Rightarrow> json_strings xs | _ \<Rightarrow> [])
      | _ \<Rightarrow> [])"

fun index_entries :: "(string \<times> json) list \<Rightarrow> (string \<rightharpoonup> string list) \<Rightarrow> (string \<rightharpoonup> string list)" where
  "index_entries [] m = m"
| "index_entries ((pid, v) # es) m =
     (let list = index_entry v
      in index_entries es (if list \<noteq> [] then m(pid \<mapsto> list) else m))"

definition parseCollectionIndex :: "transform_input \<Rightarrow> (string \<rightharpoonup> string list)" where
  "parseCollectionIndex input =
     (case shop_collectionIndex input of
        Some (JObject es) \<Rightarrow> index_entries es Map.empty
      | Some (JArray xs) \<Rightarrow> index_entries (zip (map String [0..<length xs]) xs) Map.empty
      | _ \<Rightarrow> Map.empty)"

definition cartQuantity :: "transform_input \<Rightarrow> int" where
  "cartQuantity input = foldl (\<lambda>sum l. sum + line_quantity l) 0 (cart_lines input)"

fun totalAmountLoop :: "cart_line list \<Rightarrow> real \<Rightarrow> string option \<Rightarrow> real \<times> string option" where
  "totalAmountLoop [] amt cur = (amt, cur)"
| "totalAmountLoop (l # ls) amt cur =
     totalAmountLoop ls
       (amt + (case cost_amount l of None \<Rightarrow> 0 | Some a \<Rightarrow> a))
       (case cur of None \<Rightarrow> Some (cost_currencyCode l) | Some c \<Rightarrow> Some c)"

definition cartTotalAmount :: "transform_input \<Rightarrow> real \<times> string option" where
  "cartTotalAmount input = totalAmountLoop (cart_lines input) 0 None"

fun includesAnyVariant_loop :: "cart_line list \<Rightarrow> string list \<Rightarrow> bool" where
  "includesAnyVariant_loop [] vs = False"
| "includesAnyVariant_loop (l # ls) vs =
     (case line_merchandise l of
        ProductVariant i p \<Rightarrow> if i \<noteq> [] \<and> i \<in> set vs then True else includesAnyVariant_loop ls vs
      | CustomProduct \<Rightarrow> includesAnyVariant_loop ls vs)"

definition includesAnyVariant :: "transform_input \<Rightarrow> string list \<Rightarrow> bool" where
  "includesAnyVariant input vs = includesAnyVariant_loop (cart_lines input) vs"

text \<open>The product id of a line, when its merchandise is a product variant that has one.\<close>

definition line_pid :: "cart_line \<Rightarrow> string option" where
  "line_pid l = (case line_merchandise l of ProductVariant i p \<Rightarrow> p | CustomProduct \<Rightarrow> None)"

fun includesAnyProduct_loop :: "cart_line list \<Rightarrow> string list \<Rightarrow> bool" where
  "includesAnyProduct_loop [] ps = False"
| "includesAnyProduct_loop (l # ls) ps =
     (if truthy (line_pid l) \<and> the (line_pid l) \<in> set ps then True
      else includesAnyProduct_loop ls ps)"

fun includesAnyCollection_loop ::
  "cart_line list \<Rightarrow> (string \<rightharpoonup> string list) \<Rightarrow> string list \<Rightarrow> bool" where
  "includesAnyCollection_loop [] idx target = False"
| "includesAnyCollection_loop (l # ls) idx target =
     (if \<not> truthy (line_pid l) then includesAnyCollection_loop ls idx target
      else (case idx (the (line_pid l)) of
              None \<Rightarrow> includesAnyCollection_loop ls idx target
            | Some colls \<Rightarrow>
                if (\<exists>c \<in> set colls. c \<in> set target) then True
                else includesAnyCollection_loop ls idx target))"

fun productTotal :: "cart_line list \<Rightarrow> string \<Rightarrow> int" where
  "productTotal [] targetPid = 0"
| "productTotal (l # ls) targetPid =
     (if map_option trim (line_pid l) = Some targetPid then line_quantity l else 0)
       + productTotal ls targetPid"

text \<open>One pass of the \<open>switch\<close> in \<open>ruleApplies\<close>: \<open>True\<close> for \<open>break\<close>, \<open>False\<close> for \<open>return false\<close>.\<close>

definition conditionHolds :: "condition \<Rightarrow> transform_input \<Rightarrow> bool" where
  "conditionHolds cond input =
    (if ctype cond = ''cart_quantity_at_least'' then
       \<not> cartQuantity input < threshold cond
     else if ctype cond = ''cart_total_at_least'' then
       (case cartTotalAmount input of (amt, currency) \<Rightarrow>
          if amt < amount cond then False
          else if truthy (currencyCode cond) \<and> truthy currency \<and> currencyCode cond \<noteq> currency
            then False
          else True)
     else if ctype cond = ''includes_any_variants'' then
       includesAnyVariant input (variantIds cond)
     else if ctype cond = ''includes_any_products'' then
       includesAnyProduct_loop (cart_lines input) (productIds cond)
     else if ctype cond = ''includes_any_collections'' then
       includesAnyCollection_loop (cart_lines input) (parseCollectionIndex input) (collectionIds cond)
     else if ctype cond = ''cart_quantity_in_range'' then
       (let q = cartQuantity input
        in if q < cmin cond then False
           else if (case cmax cond of None \<Rightarrow> False | Some m \<Rightarrow> q > m) then False
           else True)
     else if ctype cond = ''product_quantity_in_range'' then
       (let total = productTotal (cart_lines input) (trim (productId cond))
        in if total < cmin cond then False
           else if (case cmax cond of None \<Rightarrow> False | Some m \<Rightarrow> total > m) then False
           else True)
     else False)"

fun conditionsHold :: "condition list \<Rightarrow> transform_input \<Rightarrow> bool" where
  "conditionsHold [] input = True"
| "conditionsHold (cond # cs) input =
     (if conditionHolds cond input then conditionsHold cs input else False)"

definition ruleApplies :: "rule \<Rightarrow> transform_input \<Rightarrow> bool" where
  "ruleApplies rule input =
     (if \<not> active rule then False else conditionsHold (conditions rule) input)"

definition cartTransformRun :: "transform_input \<Rightarrow> transform_result" where
  "cartTransformRun input = NO_CHANGES"

section \<open>Storefront engine (auto-add.js)\<close>

text \<open>
  The cart that \<open>/cart.js\<close> returns: its items in order, the total price in cents and
  the cart token. An item has its line key, the numeric ids of its variant and product,
  its quantity, its unit price in cents and, when present, its line item properties.
\<close>

record item =
  key :: string
  variant_id :: nat
  product_id :: nat
  quantity :: int
  price :: int
  properties :: "(string \<times> string) list option"

record cart =
  items :: "item list"
  total_price :: int
  token :: string

definition AUTO_ADD_PROPERTY :: string where
  "AUTO_ADD_PROPERTY = ''_auto_added''"

definition gid_variant :: string where
  "gid_variant = ''gid://shopify/ProductVariant/''"

definition gid_product :: string where
  "gid_product = ''gid://shopify/Product/''"

text \<open>\<open>item.properties && item.properties[AUTO_ADD_PROPERTY] === 'true'\<close>\<close>

definition is_auto_added :: "item \<Rightarrow> bool" where
  "is_auto_added it =
     (case properties it of None \<Rightarrow> False
      | Some ps \<Rightarrow> map_of ps AUTO_ADD_PROPERTY = Some ''true'')"

text \<open>The counting loop of \<open>product_quantity_in_range\<close> in \<open>evaluateRule\<close>.\<close>

fun productQty :: "item list \<Rightarrow> string \<Rightarrow> int" where
  "productQty [] targetProductId = 0"
| "productQty (it # its) targetProductId =
     (if is_auto_added it then productQty its targetProductId
      else if String (product_id it) = targetProductId
        then quantity it + productQty its targetProductId
      else productQty its targetProductId)"

text \<open>One pass of the \<open>switch\<close> in \<open>evaluateRule\<close>: \<open>True\<close> for \<open>break\<close>, \<open>False\<close> for \<open>return false\<close>.\<close>

definition conditionPasses :: "condition \<Rightarrow> cart \<Rightarrow> bool" where
  "conditionPasses cond c =
    (if ctype cond = ''product_quantity_in_range'' then
       (let targetProductId = str_replace gid_product [] (productId cond);
            totalQty = productQty (items c) targetProductId
        in if totalQty < cmin cond then False
           else if (case cmax cond of None \<Rightarrow> False | Some m \<Rightarrow> totalQty > m) then False
           else True)
     else if ctype cond = ''cart_total_gte'' then
       (let cartTotal = real_of_int (total_price c) / 100
        in if cartTotal < cvalue cond then False else True)
     else False)"

fun conditionsPass :: "condition list \<Rightarrow> cart \<Rightarrow> bool" where
  "conditionsPass [] c = True"
| "conditionsPass (cond # cs) c =
     (if conditionPasses cond c then conditionsPass cs c else False)"

definition evaluateRule :: "rule \<Rightarrow> cart \<Rightarrow> bool" where
  "evaluateRule rule c =
     (if conditions rule = [] then False else conditionsPass (conditions rule) c)"

subsection \<open>The mutations that \<open>processCart\<close> requests\<close>

text \<open>
  \<open>Remove k\<close> is the call \<open>removeFromCart(k)\<close>, \<open>SetQuantity k q\<close> the call
  \<open>updateCartItemQuantity(k, q)\<close> and \<open>Add v q\<close> the call \<open>addToCart(v, q)\<close>, in the order
  in which \<open>processCart\<close> makes them. Every decision is taken on the cart that was read at the
  start of the cycle.
\<close>

datatype intent =
  Remove string
| SetQuantity string int
| Add string int

text \<open>
  A JavaScript \<open>Map\<close> with string keys, iterated in insertion order: \<open>set\<close> on a key
  that is present keeps its position.
\<close>

type_synonym shouldHave = "(string \<times> rule) list"

definition jsmap_has :: "(string \<times> 'v) list \<Rightarrow> string \<Rightarrow> bool" where
  "jsmap_has m k = (k \<in> set (map fst m))"

fun jsmap_set :: "(string \<times> 'v) list \<Rightarrow> string \<Rightarrow> 'v \<Rightarrow> (string \<times> 'v) list" where
  "jsmap_set [] k v = [(k, v)]"
| "jsmap_set (p # m) k v = (if fst p = k then (k, v) # m else p # jsmap_set m k v)"

definition jsmap_delete :: "(string \<times> 'v) list \<Rightarrow> string \<Rightarrow> (string \<times> 'v) list" where
  "jsmap_delete m k = filter (\<lambda>p. fst p \<noteq> k) m"

definition autoAddedItems :: "cart \<Rightarrow> item list" where
  "autoAddedItems c = filter is_auto_added (items c)"

text \<open>The loop over the rules: the should-have map and the groups seen so far.\<close>

fun matchRules :: "rule list \<Rightarrow> cart \<Rightarrow> shouldHave \<Rightarrow> string set \<Rightarrow> shouldHave" where
  "matchRules [] c sh seenGroups = sh"
| "matchRules (rule # rs) c sh seenGroups =
     (if evaluateRule rule c then
        (if truthy (group rule) then
           (if the (group rule) \<in> seenGroups then matchRules rs c sh seenGroups
            else matchRules rs c (jsmap_set sh (addVariantId (action rule)) rule)
                   (insert (the (group rule)) seenGroups))
         else matchRules rs c (jsmap_set sh (addVariantId (action rule)) rule) seenGroups)
      else matchRules rs c sh seenGroups)"

definition shouldHaveVariants :: "rule list \<Rightarrow> cart \<Rightarrow> shouldHave" where
  "shouldHaveVariants rules c = matchRules rules c [] {}"

text \<open>The loop over the auto-added items: the requests made and what is left of the map.\<close>

definition variantGid :: "item \<Rightarrow> string" where
  "variantGid it = gid_variant @ String (variant_id it)"

fun checkAutoAdded :: "item list \<Rightarrow> shouldHave \<Rightarrow> intent list \<times> shouldHave" where
  "checkAutoAdded [] sh = ([], sh)"
| "checkAutoAdded (it # its) sh =
     (if \<not> jsmap_has sh (variantGid it) then
        (case checkAutoAdded its sh of (xs, sh') \<Rightarrow> (Remove (key it) # xs, sh'))
      else
        (case checkAutoAdded its (jsmap_delete sh (variantGid it)) of (xs, sh') \<Rightarrow>
           ((if quantity it \<noteq> 1 then [SetQuantity (key it) 1] else []) @ xs, sh')))"

text \<open>The loop over the entries that are left: adding the gifts that are missing.\<close>

fun addMissing :: "shouldHave \<Rightarrow> cart \<Rightarrow> intent list" where
  "addMissing [] c = []"
| "addMissing ((vgid, rule) # sh) c =
     (let numericId = str_replace gid_variant [] vgid;
          existingItem = find (\<lambda>it. String (variant_id it) = numericId) (items c)
      in case existingItem of
           None \<Rightarrow> Add vgid 1 # addMissing sh c
         | Some e \<Rightarrow>
             if \<not> is_auto_added e then addMissing sh c
             else if quantity e \<noteq> 1 then SetQuantity (key e) 1 # addMissing sh c
             else addMissing sh c)"

text \<open>The body of \<open>processCart\<close> once the cart is read: the requests of one cycle.\<close>

definition cycleIntents :: "rule list \<Rightarrow> cart \<Rightarrow> intent list" where
  "cycleIntents rules c =
     (case checkAutoAdded (autoAddedItems c) (shouldHaveVariants rules c) of
        (xs, sh') \<Rightarrow> xs @ addMissing sh' c)"

text \<open>
  \<open>processCart\<close> with its module state: the rules, the busy flag and the last cart token.
  Its argument is what \<open>getCart\<close> returned (\<open>None\<close> for \<open>null\<close>).
\<close>

record engine =
  rules :: "rule list"
  processing :: bool
  lastCartToken :: "string option"

definition processCart :: "engine \<Rightarrow> cart option \<Rightarrow> intent list \<times> engine" where
  "processCart st got =
     (if processing st then ([], st)
      else case got of
        None \<Rightarrow> ([], st\<lparr>processing := False\<rparr>)
      | Some c \<Rightarrow>
          if Some (token c) = lastCartToken st then ([], st\<lparr>processing := False\<rparr>)
          else
            (let madeIntents = cycleIntents (rules st) c
             in (madeIntents,
                 st\<lparr>lastCartToken := (if madeIntents \<noteq> [] then None else Some (token c)),
                    processing := False\<rparr>)))"

text \<open>
  The app proxy route that serves the rules to the storefront returns the active ones
  only (\<open>rules.filter(r => r && r.active)\<close>), in their stored order.
\<close>

definition proxyRules :: "rule list \<Rightarrow> rule list" where
  "proxyRules stored = filter active stored"

section \<open>The cart requests and the cart after a cycle\<close>

text \<open>
  What the three requests of the engine do to the cart, as far as the next cycle can
  see it. \<open>removeFromCart\<close> and \<open>updateCartItemQuantity\<close> post the line key and a
  quantity to \<open>/cart/change.js\<close>: quantity \<open>0\<close> removes the line with that key, any
  other quantity is set on it. \<open>addToCart\<close> posts
  \<open>parseInt(variantId.replace('gid://shopify/ProductVariant/', ''))\<close>, the quantity and the
  property \<open>_auto_added: 'true'\<close> to \<open>/cart/add.js\<close>: the shop adds a line for that
  variant (here in front of the others), or raises the quantity of the line that has the same
  variant and the same properties; a variant that the shop does not have is refused and
  the cart stays as it is. The shop is a parameter: it gives the product and the unit
  price of each variant it has. The total price follows the lines.
\<close>

type_synonym catalog = "nat \<Rightarrow> (nat \<times> int) option"

definition auto_properties :: "(string \<times> string) list" where
  "auto_properties = [(AUTO_ADD_PROPERTY, ''true'')]"

definition new_key :: "nat \<Rightarrow> string" where
  "new_key n = String n @ '':'' @ AUTO_ADD_PROPERTY"

definition gift_line :: "nat \<Rightarrow> nat \<Rightarrow> int \<Rightarrow> int \<Rightarrow> item" where
  "gift_line n pid pr q =
     \<lparr>key = new_key n, variant_id = n, product_id = pid, quantity = q,
      price = pr, properties = Some auto_properties\<rparr>"

definition cart_change :: "string \<Rightarrow> int \<Rightarrow> cart \<Rightarrow> cart" where
  "cart_change k q c =
     c\<lparr>items := (if q = 0 then filter (\<lambda>it. key it \<noteq> k) (items c)
                  else map (\<lambda>it. if key it = k then it\<lparr>quantity := q\<rparr> else it) (items c)),
       total_price := total_price c
          + sum_list (map (\<lambda>it. price it * (q - quantity it)) (filter (\<lambda>it. key it = k) (items c)))\<rparr>"

definition cart_add :: "catalog \<Rightarrow> nat \<Rightarrow> int \<Rightarrow> cart \<Rightarrow> cart" where
  "cart_add shop n q c =
     (case shop n of
        None \<Rightarrow> c
      | Some (pid, pr) \<Rightarrow>
          (case find (\<lambda>it. variant_id it = n \<and> properties it = Some auto_properties) (items c) of
             Some e \<Rightarrow> cart_change (key e) (quantity e + q) c
           | None \<Rightarrow>
               c\<lparr>items := gift_line n pid pr q # items c,
                 total_price := total_price c + pr * q\<rparr>))"

text \<open>
  The id that \<open>addToCart\<close> posts for a variant GID; the shop has no variant for
  \<open>NaN\<close> or for a negative number.
\<close>

definition posted_id :: "string \<Rightarrow> nat option" where
  "posted_id v =
     (case parseInt (str_replace gid_variant [] v) of
        None \<Rightarrow> None
      | Some z \<Rightarrow> if z < 0 then None else Some (nat z))"

fun apply_intent :: "catalog \<Rightarrow> intent \<Rightarrow> cart \<Rightarrow> cart" where
  "apply_intent shop (Remove k) c = cart_change k 0 c"
| "apply_intent shop (SetQuantity k q) c = cart_change k q c"
| "apply_intent shop (Add v q) c =
     (case posted_id v of
        None \<Rightarrow> c
      | Some n \<Rightarrow> cart_add shop n q c)"

definition apply_intents :: "catalog \<Rightarrow> intent list \<Rightarrow> cart \<Rightarrow> cart" where
  "apply_intents shop xs c = fold (apply_intent shop) xs c"

text \<open>
  The items of the cart once the requests of the first loop are done: a manual line stays,
  an auto-added line whose variant is still wanted stays with quantity \<open>1\<close>, any other
  auto-added line is gone.
\<close>

fun after_check :: "item list \<Rightarrow> shouldHave \<Rightarrow> item list" where
  "after_check [] sh = []"
| "after_check (it # its) sh =
     (if \<not> is_auto_added it then it # after_check its sh
      else if jsmap_has sh (variantGid it)
        then it\<lparr>quantity := 1\<rparr> # after_check its (jsmap_delete sh (variantGid it))
      else after_check its sh)"

text \<open>The lines that the requests of the second loop add, the last one first.\<close>

fun added_lines :: "catalog \<Rightarrow> shouldHave \<Rightarrow> cart \<Rightarrow> item list" where
  "added_lines shop [] c = []"
| "added_lines shop ((v, r) # sh) c =
     (case find (\<lambda>it. String (variant_id it) = str_replace gid_variant [] v) (items c) of
        Some e \<Rightarrow> added_lines shop sh c
      | None \<Rightarrow>
         (case posted_id v of
            None \<Rightarrow> added_lines shop sh c
          | Some n \<Rightarrow>
             (case shop n of
                None \<Rightarrow> added_lines shop sh c
              | Some (pid, pr) \<Rightarrow> added_lines shop sh c @ [gift_line n pid pr 1])))"

text \<open>
  A cart is settled for a should-have map when every auto-added line has quantity \<open>1\<close>
  and a wanted variant, no two auto-added lines have the same variant, and every wanted
  variant has a line.
\<close>

definition settled :: "shouldHave \<Rightarrow> item list \<Rightarrow> bool" where
  "settled sh its =
     ((\<forall>it \<in> set its. is_auto_added it \<longrightarrow> quantity it = 1 \<and> jsmap_has sh (variantGid it))
      \<and> distinct (map variant_id (filter is_auto_added its))
      \<and> (\<forall>v \<in> fst ` set sh. \<exists>it \<in> set its. String (variant_id it) = str_replace gid_variant [] v))"

section \<open>Condition kinds and example inputs\<close>

text \<open>The kinds that the \<open>switch\<close> of each evaluator has a case for.\<close>

definition transform_kinds :: "string list" where
  "transform_kinds =
     [''cart_quantity_at_least'', ''cart_total_at_least'', ''includes_any_variants'',
      ''includes_any_products'', ''includes_any_collections'', ''cart_quantity_in_range'',
      ''product_quantity_in_range'']"

definition storefront_kinds :: "string list" where
  "storefront_kinds = [''product_quantity_in_range'', ''cart_total_gte'']"

text \<open>A condition of a given kind with every field at its neutral value, and a rule around it.\<close>

definition cond_of :: "string \<Rightarrow> condition" where
  "cond_of k =
     \<lparr>ctype = k, threshold = 0, amount = 0, currencyCode = None, variantIds = [],
      cmin = 0, cmax = None, productIds = [], collectionIds = [], productId = [], cvalue = 0\<rparr>"

definition rule_of :: "string \<Rightarrow> string option \<Rightarrow> condition list \<Rightarrow> string \<Rightarrow> int option \<Rightarrow> rule" where
  "rule_of i g cs v q =
     \<lparr>rule_id = i, active = True, group = g, conditions = cs,
      action = \<lparr>addVariantId = v, action_quantity = q, titleOverride = None\<rparr>\<rparr>"

definition variant_line :: "string \<Rightarrow> int \<Rightarrow> string \<Rightarrow> string \<Rightarrow> cart_line" where
  "variant_line i q v p =
     \<lparr>line_id = i, line_quantity = q, line_merchandise = ProductVariant v (Some p),
      cost_amount = Some 10, cost_currencyCode = ''USD''\<rparr>"

definition input_of :: "cart_line list \<Rightarrow> transform_input" where
  "input_of ls = \<lparr>cart_lines = ls, shop_rules_value = None, shop_collectionIndex = None\<rparr>"

definition input_qty :: "int \<Rightarrow> transform_input" where
  "input_qty q =
     input_of [variant_line ''l1'' 1 ''gid://shopify/ProductVariant/11'' ''gid://shopify/Product/1'',
               variant_line ''l2'' (q - 1) ''gid://shopify/ProductVariant/21'' ''gid://shopify/Product/2'']"

definition empty_cart :: cart where
  "empty_cart = \<lparr>items = [], total_price = 0, token = ''tok''\<rparr>"

definition rule_unknown :: rule where
  "rule_unknown = rule_of ''r1'' None [cond_of ''cart_weight_at_least''] ''gid://shopify/ProductVariant/1'' None"

definition rule_qty_at_least :: rule where
  "rule_qty_at_least = rule_of ''r1'' None [cond_of ''cart_quantity_at_least''] ''gid://shopify/ProductVariant/1'' None"

definition rule_5_9 :: rule where
  "rule_5_9 = rule_of ''r1'' None [(cond_of ''cart_quantity_in_range'')\<lparr>cmin := 5, cmax := Some 9\<rparr>]
     ''gid://shopify/ProductVariant/1'' None"

definition rule_5_up :: rule where
  "rule_5_up = rule_of ''r1'' None [(cond_of ''cart_quantity_in_range'')\<lparr>cmin := 5\<rparr>]
     ''gid://shopify/ProductVariant/1'' None"

definition rule_no_conditions :: rule where
  "rule_no_conditions = rule_of ''r1'' None [] ''gid://shopify/ProductVariant/1'' None"

definition manual_item :: "string \<Rightarrow> nat \<Rightarrow> nat \<Rightarrow> int \<Rightarrow> int \<Rightarrow> item" where
  "manual_item k v p q pr =
     \<lparr>key = k, variant_id = v, product_id = p, quantity = q, price = pr, properties = None\<rparr>"

definition gift_item :: "string \<Rightarrow> nat \<Rightarrow> nat \<Rightarrow> int \<Rightarrow> int \<Rightarrow> item" where
  "gift_item k v p q pr =
     \<lparr>key = k, variant_id = v, product_id = p, quantity = q, price = pr,
      properties = Some [(''_auto_added'', ''true'')]\<rparr>"

definition total_gte :: "real \<Rightarrow> condition" where
  "total_gte x = (cond_of ''cart_total_gte'')\<lparr>cvalue := x\<rparr>"

definition tier_rules :: "rule list" where
  "tier_rules =
     [rule_of ''rA'' (Some ''tier'') [total_gte 50] ''gid://shopify/ProductVariant/101'' None,
      rule_of ''rB'' (Some ''tier'') [total_gte 30] ''gid://shopify/ProductVariant/102'' None]"

definition shared_target_rules :: "rule list" where
  "shared_target_rules =
     [rule_of ''rA'' (Some ''tier'') [total_gte 50] ''gid://shopify/ProductVariant/101'' None,
      rule_of ''rB'' (Some ''tier'') [total_gte 30] ''gid://shopify/ProductVariant/102'' None,
      rule_of ''rU'' None [total_gte 30] ''gid://shopify/ProductVariant/102'' None]"

definition cart_60 :: cart where
  "cart_60 = \<lparr>items = [manual_item ''k1'' 11 1 2 3000], total_price = 6000, token = ''tok''\<rparr>"

definition rule_qty2 :: rule where
  "rule_qty2 = rule_of ''r1'' None [total_gte 50] ''gid://shopify/ProductVariant/101'' (Some 2)"

definition cart_gift2 :: cart where
  "cart_gift2 = \<lparr>items = [manual_item ''k1'' 11 1 2 3000, gift_item ''k2'' 101 7 2 0],
     total_price = 6000, token = ''tok''\<rparr>"

definition cart_manual_gift :: cart where
  "cart_manual_gift = \<lparr>items = [manual_item ''k1'' 11 1 2 3000, manual_item ''k3'' 101 7 3 0],
     total_price = 6000, token = ''tok''\<rparr>"

definition two_tier_rules :: "rule list" where
  "two_tier_rules =
     [rule_of ''r1'' None [total_gte 50] ''gid://shopify/ProductVariant/101'' None,
      rule_of ''r2'' None [total_gte 60] ''gid://shopify/ProductVariant/102'' None]"

definition cart_50 :: cart where
  "cart_50 = \<lparr>items = [manual_item ''k1'' 11 1 1 5000], total_price = 5000, token = ''tok''\<rparr>"

definition gift_shop :: catalog where
  "gift_shop n = (if n = 101 \<or> n = 102 then Some (9, 1000) else None)"

definition product_range :: "string \<Rightarrow> int \<Rightarrow> int option \<Rightarrow> condition" where
  "product_range p lo hi = (cond_of ''product_quantity_in_range'')\<lparr>productId := p, cmin := lo, cmax := hi\<rparr>"

definition product_rules :: "rule list" where
  "product_rules =
     [rule_of ''rP'' None [product_range ''gid://shopify/Product/1'' 2 None]
        ''gid://shopify/ProductVariant/101'' None,
      rule_of ''rQ'' None [product_range ''gid://shopify/Product/2'' 1 (Some 5)]
        ''gid://shopify/ProductVariant/102'' None]"

definition cart_mixed :: cart where
  "cart_mixed =
     \<lparr>items = [manual_item ''k1'' 11 1 2 3000, gift_item ''k2'' 102 9 3 500,
               gift_item ''k4'' 555 9 1 500, manual_item ''k5'' 21 2 1 700],
      total_price = 8700, token = ''tok''\<rparr>"

definition free_shop :: catalog where
  "free_shop n = (if n = 101 \<or> n = 102 then Some (9, 0) else None)"

definition rule_p7 :: rule where
  "rule_p7 = rule_of ''r1'' None [product_range ''gid://shopify/Product/7'' 1 (Some 1)]
     ''gid://shopify/ProductVariant/701'' None"

definition input_p7 :: transform_input where
  "input_p7 =
     input_of [variant_line ''l1'' 1 ''gid://shopify/ProductVariant/71'' ''gid://shopify/Product/7'']"

definition input_p7_gift :: transform_input where
  "input_p7_gift =
     input_of [variant_line ''l1'' 1 ''gid://shopify/ProductVariant/71'' ''gid://shopify/Product/7'',
               variant_line ''l2'' 1 ''gid://shopify/ProductVariant/701'' ''gid://shopify/Product/7'']"

definition cart_p7 :: cart where
  "cart_p7 = \<lparr>items = [manual_item ''k1'' 71 7 1 2000], total_price = 2000, token = ''tok''\<rparr>"

definition cart_p7_gift :: cart where
  "cart_p7_gift =
     \<lparr>items = [gift_item ''k2'' 701 7 1 500, manual_item ''k1'' 71 7 1 2000],
      total_price = 2500, token = ''tok''\<rparr>"

section \<open>Transform-time call site\<close>

text \<open>
  C4: for every input, the cart transform returns a result whose operations list is
  empty; no cart mutation is emitted at transform time, whatever the rules say.
\<close>

theorem cartTransformRun_no_operations:
  "operations (cartTransformRun input) = []"
  by (simp add: cartTransformRun_def NO_CHANGES_def)

section \<open>Condition evaluation\<close>

lemma conditionsHold_fails:
  "cond \<in> set cs \<Longrightarrow> \<not> conditionHolds cond input \<Longrightarrow> \<not> conditionsHold cs input"
  by (induction cs) auto

lemma conditionsPass_fails:
  "cond \<in> set cs \<Longrightarrow> \<not> conditionPasses cond c \<Longrightarrow> \<not> conditionsPass cs c"
  by (induction cs) auto

lemma conditionHolds_default:
  "ctype cond \<notin> set transform_kinds \<Longrightarrow> \<not> conditionHolds cond input"
  by (simp add: transform_kinds_def conditionHolds_def)

lemma conditionPasses_default:
  "ctype cond \<notin> set storefront_kinds \<Longrightarrow> \<not> conditionPasses cond c"
  by (simp add: storefront_kinds_def conditionPasses_def)

text \<open>
  C8: a condition whose kind is not one that the evaluator has a case for falls to the
  \<open>default\<close> branch, so a rule that contains one does not match. This holds for the
  transform-time \<open>ruleApplies\<close> and for the storefront \<open>evaluateRule\<close>; both return the
  value \<open>False\<close>, neither has a failing branch.
\<close>

theorem unknown_kind_never_matches:
  "(cond \<in> set (conditions rule) \<and> ctype cond \<notin> set transform_kinds
      \<longrightarrow> ruleApplies rule input = False)
   \<and> (cond \<in> set (conditions rule) \<and> ctype cond \<notin> set storefront_kinds
      \<longrightarrow> evaluateRule rule c = False)"
  using conditionsHold_fails [of cond "conditions rule" input]
        conditionsPass_fails [of cond "conditions rule" c]
        conditionHolds_default [of cond input] conditionPasses_default [of cond c]
  by (auto simp: ruleApplies_def evaluateRule_def)

theorem unknown_kind_never_matches_witness:
  "cond_of ''cart_weight_at_least'' \<in> set (conditions rule_unknown)
   \<and> ctype (cond_of ''cart_weight_at_least'') \<notin> set transform_kinds
   \<and> ctype (cond_of ''cart_weight_at_least'') \<notin> set storefront_kinds
   \<and> ruleApplies rule_unknown (input_qty 3) = False
   \<and> evaluateRule rule_unknown empty_cart = False"
  using unknown_kind_never_matches
          [of "cond_of ''cart_weight_at_least''" rule_unknown "input_qty 3" empty_cart]
  by (simp add: rule_unknown_def rule_of_def cond_of_def transform_kinds_def storefront_kinds_def)

text \<open>
  C9: the storefront evaluator has cases for \<open>product_quantity_in_range\<close> and
  \<open>cart_total_gte\<close> only. A rule with a condition of any other kind, among them the six
  other kinds of the rule model, is evaluated to \<open>False\<close>.
\<close>

theorem storefront_other_kinds_never_match:
  "(cond \<in> set (conditions rule) \<and> ctype cond \<noteq> ''product_quantity_in_range''
       \<and> ctype cond \<noteq> ''cart_total_gte''
     \<longrightarrow> evaluateRule rule c = False)
   \<and> (cond \<in> set (conditions rule)
       \<and> ctype cond \<in> set [''cart_quantity_at_least'', ''cart_quantity_in_range'',
            ''cart_total_at_least'', ''includes_any_variants'', ''includes_any_products'',
            ''includes_any_collections'']
     \<longrightarrow> evaluateRule rule c = False)"
proof -
  have "\<not> conditionsPass (conditions rule) c"
    if "cond \<in> set (conditions rule)" and "\<not> conditionPasses cond c"
    using that by (rule conditionsPass_fails)
  moreover have "\<not> conditionPasses cond c"
    if "ctype cond \<noteq> ''product_quantity_in_range''" and "ctype cond \<noteq> ''cart_total_gte''"
    using that by (simp add: conditionPasses_def)
  ultimately show ?thesis
    by (auto simp: evaluateRule_def)
qed

theorem storefront_other_kinds_never_match_witness:
  "cond_of ''cart_quantity_at_least'' \<in> set (conditions rule_qty_at_least)
   \<and> ctype (cond_of ''cart_quantity_at_least'') \<noteq> ''product_quantity_in_range''
   \<and> ctype (cond_of ''cart_quantity_at_least'') \<noteq> ''cart_total_gte''
   \<and> evaluateRule rule_qty_at_least empty_cart = False"
  using storefront_other_kinds_never_match
          [of "cond_of ''cart_quantity_at_least''" rule_qty_at_least empty_cart]
  by (simp add: rule_qty_at_least_def rule_of_def cond_of_def)

text \<open>The cart quantity of the transform is the sum of the line quantities.\<close>

lemma cartQuantity_foldl:
  "foldl (\<lambda>sum l. sum + line_quantity l) a ls = a + sum_list (map line_quantity ls)"
  by (induction ls arbitrary: a) simp_all

lemma cartQuantity_sum:
  "cartQuantity input = sum_list (map line_quantity (cart_lines input))"
  by (simp add: cartQuantity_def cartQuantity_foldl)

text \<open>
  C10: the bounds of \<open>cart_quantity_in_range\<close> are inclusive. A rule whose only condition
  is of this kind applies exactly when the total quantity of the cart lines is at least
  \<open>min\<close> and, when \<open>max\<close> is given, at most \<open>max\<close>; without \<open>max\<close> every total from
  \<open>min\<close> on matches.
\<close>

theorem cart_quantity_in_range_inclusive:
  assumes "active rule" and "conditions rule = [cond]"
    and "ctype cond = ''cart_quantity_in_range''"
  shows "ruleApplies rule input =
           (cmin cond \<le> sum_list (map line_quantity (cart_lines input))
            \<and> (case cmax cond of None \<Rightarrow> True
               | Some m \<Rightarrow> sum_list (map line_quantity (cart_lines input)) \<le> m))"
  using assms
  by (auto simp: ruleApplies_def conditionHolds_def cartQuantity_sum Let_def split: option.splits)

lemmas example_rule_simps =
  rule_5_9_def rule_5_up_def rule_of_def cond_of_def input_qty_def input_of_def variant_line_def

theorem cart_quantity_in_range_inclusive_witness:
  "active rule_5_9 \<and> conditions rule_5_9 = [(cond_of ''cart_quantity_in_range'')\<lparr>cmin := 5, cmax := Some 9\<rparr>]
   \<and> \<not> ruleApplies rule_5_9 (input_qty 4)
   \<and> ruleApplies rule_5_9 (input_qty 5)
   \<and> ruleApplies rule_5_9 (input_qty 9)
   \<and> \<not> ruleApplies rule_5_9 (input_qty 10)
   \<and> \<not> ruleApplies rule_5_up (input_qty 4)
   \<and> ruleApplies rule_5_up (input_qty 5)
   \<and> ruleApplies rule_5_up (input_qty 1000000)"
  using cart_quantity_in_range_inclusive
          [of rule_5_9 "(cond_of ''cart_quantity_in_range'')\<lparr>cmin := 5, cmax := Some 9\<rparr>" "input_qty 4"]
        cart_quantity_in_range_inclusive
          [of rule_5_9 "(cond_of ''cart_quantity_in_range'')\<lparr>cmin := 5, cmax := Some 9\<rparr>" "input_qty 5"]
        cart_quantity_in_range_inclusive
          [of rule_5_9 "(cond_of ''cart_quantity_in_range'')\<lparr>cmin := 5, cmax := Some 9\<rparr>" "input_qty 9"]
        cart_quantity_in_range_inclusive
          [of rule_5_9 "(cond_of ''cart_quantity_in_range'')\<lparr>cmin := 5, cmax := Some 9\<rparr>" "input_qty 10"]
        cart_quantity_in_range_inclusive
          [of rule_5_up "(cond_of ''cart_quantity_in_range'')\<lparr>cmin := 5\<rparr>" "input_qty 4"]
        cart_quantity_in_range_inclusive
          [of rule_5_up "(cond_of ''cart_quantity_in_range'')\<lparr>cmin := 5\<rparr>" "input_qty 5"]
        cart_quantity_in_range_inclusive
          [of rule_5_up "(cond_of ''cart_quantity_in_range'')\<lparr>cmin := 5\<rparr>" "input_qty 1000000"]
  by (simp add: example_rule_simps)

section \<open>Strings of numeric ids\<close>

lemma digit_cases: "(d::nat) < 10 \<Longrightarrow> d \<in> {0, 1, 2, 3, 4, 5, 6, 7, 8, 9}"
  by auto

lemma digit_value_digit_char: "d < 10 \<Longrightarrow> digit_value (digit_char d) = d"
  by (drule digit_cases) (auto simp: digit_char_def digit_value_def)

lemma is_digit_digit_char: "is_digit (digit_char d)"
proof -
  have "d mod 10 < 10" by simp
  from digit_cases [OF this] show ?thesis
    by (auto simp: digit_char_def is_digit_def)
qed

lemma String_digits: "c \<in> set (String n) \<Longrightarrow> is_digit c"
proof (induction n arbitrary: c rule: String.induct)
  case (1 n)
  then show ?case
    by (subst (asm) String.simps) (auto simp: is_digit_digit_char split: if_splits)
qed

lemma String_nonempty: "String n \<noteq> []"
  by (subst String.simps) simp

lemma String_value: "foldl (\<lambda>a c. 10 * a + digit_value c) 0 (String n) = n"
proof (induction n rule: String.induct)
  case (1 n)
  show ?case
  proof (cases "n < 10")
    case True
    then show ?thesis
      by (subst String.simps) (simp add: digit_value_digit_char)
  next
    case False
    with 1 show ?thesis
      by (subst String.simps) (simp add: digit_value_digit_char)
  qed
qed

lemma is_digit_plain:
  "is_digit c \<Longrightarrow>
     \<not> is_space c \<and> c \<noteq> CHR ''-'' \<and> c \<noteq> CHR ''+'' \<and> c \<noteq> CHR ''x'' \<and> c \<noteq> CHR ''X''"
  by (auto simp: is_digit_def is_space_def)

lemma parseInt_digits:
  assumes "s \<noteq> []" and "\<forall>c \<in> set s. is_digit c"
  shows "parseInt s = Some (int (foldl (\<lambda>a c. 10 * a + digit_value c) 0 s))"
proof -
  from assms obtain c cs where s: "s = c # cs" by (cases s) auto
  with assms(2) have c: "is_digit c" by simp
  have t: "dropWhile is_space s = s"
    using s c by (simp add: is_digit_plain)
  have sign: "hd s \<noteq> CHR ''-''" "hd s \<noteq> CHR ''+''"
    using s c by (simp_all add: is_digit_plain)
  have nohex: "take 2 s \<noteq> ''0x''" "take 2 s \<noteq> ''0X''"
  proof -
    have "d \<noteq> CHR ''x'' \<and> d \<noteq> CHR ''X''" if "d \<in> set (take 2 s)" for d
      using that assms(2) is_digit_plain [of d] by (auto dest: in_set_takeD)
    then show "take 2 s \<noteq> ''0x''" "take 2 s \<noteq> ''0X''"
      by force+
  qed
  have tw: "takeWhile is_digit s = s"
    using assms(2) by (simp add: takeWhile_eq_all_conv)
  show ?thesis
    unfolding parseInt_def Let_def t using sign nohex assms(1) by (simp add: tw)
qed

lemma parseInt_String: "parseInt (String n) = Some (int n)"
  using parseInt_digits [of "String n"] String_nonempty [of n] String_digits [of _ n]
  by (simp add: String_value)

lemma String_inj: "String m = String n \<Longrightarrow> m = n"
  by (metis String_value)

lemma str_replace_prefix: "str_replace pat rep (pat @ s) = rep @ s"
proof (cases "pat @ s")
  case Nil
  then show ?thesis by simp
next
  case (Cons a l)
  have "take (length pat) (a # l) = pat" and "drop (length pat) (a # l) = s"
    unfolding Cons [symmetric] by simp_all
  then show ?thesis
    unfolding Cons by simp
qed

lemma posted_id_gid: "posted_id (gid_variant @ String n) = Some n"
  by (simp add: posted_id_def str_replace_prefix parseInt_String)

lemma numericId_variantGid: "str_replace gid_variant [] (variantGid it) = String (variant_id it)"
  by (simp add: variantGid_def str_replace_prefix)

section \<open>Rule matching\<close>

lemmas storefront_example_simps =
  tier_rules_def cart_60_def rule_of_def cond_of_def total_gte_def manual_item_def gift_item_def
  proxyRules_def evaluateRule_def conditionPasses_def truthy_def shouldHaveVariants_def

lemma jsmap_set_subset: "set (jsmap_set m k v) \<subseteq> insert (k, v) (set m)"
  by (induction m) auto

lemma jsmap_has_set: "jsmap_has (jsmap_set m k v) k' = (k' = k \<or> jsmap_has m k')"
  by (induction m) (auto simp: jsmap_has_def)

lemma matchRules_has_mono:
  "jsmap_has sh k \<Longrightarrow> jsmap_has (matchRules rs c sh seen) k"
  by (induction rs arbitrary: sh seen) (auto simp: jsmap_has_set)

lemma matchRules_entry:
  "(v, r) \<in> set (matchRules rs c sh seen) \<Longrightarrow>
     (v, r) \<in> set sh \<or>
     (r \<in> set rs \<and> evaluateRule r c \<and> v = addVariantId (action r)
      \<and> (truthy (group r) \<longrightarrow> the (group r) \<notin> seen
            \<and> find (\<lambda>x. evaluateRule x c \<and> group x = group r) rs = Some r))"
proof (induction rs arbitrary: sh seen)
  case Nil
  then show ?case by simp
next
  case (Cons x xs)
  show ?case
  proof (cases "evaluateRule x c")
    case False
    with Cons.prems have "(v, r) \<in> set (matchRules xs c sh seen)" by simp
    from Cons.IH [OF this] False show ?thesis by auto
  next
    case match: True
    show ?thesis
    proof (cases "truthy (group x)")
      case False
      with match Cons.prems
      have "(v, r) \<in> set (matchRules xs c (jsmap_set sh (addVariantId (action x)) x) seen)"
        by simp
      from Cons.IH [OF this] jsmap_set_subset [of sh "addVariantId (action x)" x] match False
      show ?thesis by auto
    next
      case grouped: True
      then obtain g where g: "group x = Some g" "g \<noteq> []"
        by (auto simp: truthy_def split: option.splits)
      show ?thesis
      proof (cases "g \<in> seen")
        case True
        with match grouped g Cons.prems have "(v, r) \<in> set (matchRules xs c sh seen)" by simp
        from Cons.IH [OF this] True g show ?thesis
          by (auto simp: truthy_def split: option.splits)
      next
        case False
        with match grouped g Cons.prems
        have "(v, r) \<in> set (matchRules xs c (jsmap_set sh (addVariantId (action x)) x)
                 (insert g seen))"
          by simp
        from Cons.IH [OF this] jsmap_set_subset [of sh "addVariantId (action x)" x]
          match grouped g False
        show ?thesis
          by (auto simp: truthy_def split: option.splits)
      qed
    qed
  qed
qed

lemma matchRules_winner:
  "find (\<lambda>x. evaluateRule x c \<and> group x = Some g) rs = Some w \<Longrightarrow> g \<noteq> [] \<Longrightarrow> g \<notin> seen \<Longrightarrow>
     jsmap_has (matchRules rs c sh seen) (addVariantId (action w))"
proof (induction rs arbitrary: sh seen)
  case Nil
  then show ?case by simp
next
  case (Cons x xs)
  show ?case
  proof (cases "evaluateRule x c \<and> group x = Some g")
    case True
    with Cons.prems have "w = x" by simp
    with True Cons.prems show ?thesis
      by (simp add: truthy_def matchRules_has_mono jsmap_has_set)
  next
    case False
    with Cons.prems have f: "find (\<lambda>x. evaluateRule x c \<and> group x = Some g) xs = Some w"
      by simp
    have "jsmap_has (matchRules xs c sh' seen') (addVariantId (action w))"
      if "g \<notin> seen'" for sh' seen'
      using Cons.IH [OF f \<open>g \<noteq> []\<close> that] .
    with False Cons.prems(3) show ?thesis
      by (auto simp: truthy_def split: option.splits)
  qed
qed

lemma find_filter: "find P (filter Q xs) = find (\<lambda>x. Q x \<and> P x) xs"
  by (induction xs) auto

text \<open>
  Three active rules that all match a cart of 60.00: \<open>rA\<close> and \<open>rB\<close> share the group
  \<open>tier\<close> and target the variants 101 and 102, and \<open>rU\<close>, which has no group, targets
  102 as well. The rule \<open>rB\<close> is blocked by its group, yet its target variant is a key of
  the should-have map, put there by \<open>rU\<close>: the map holds the target variants of both
  rules of the group (C6 as stated fails here).
\<close>

theorem group_loser_target_present:
  "active (shared_target_rules ! 0) \<and> active (shared_target_rules ! 1)
   \<and> group (shared_target_rules ! 0) = Some ''tier''
   \<and> group (shared_target_rules ! 1) = Some ''tier''
   \<and> evaluateRule (shared_target_rules ! 0) cart_60
   \<and> evaluateRule (shared_target_rules ! 1) cart_60
   \<and> addVariantId (action (shared_target_rules ! 0)) = ''gid://shopify/ProductVariant/101''
   \<and> addVariantId (action (shared_target_rules ! 1)) = ''gid://shopify/ProductVariant/102''
   \<and> shouldHaveVariants (proxyRules shared_target_rules) cart_60
        = [(''gid://shopify/ProductVariant/101'', shared_target_rules ! 0),
           (''gid://shopify/ProductVariant/102'', shared_target_rules ! 2)]
   \<and> jsmap_has (shouldHaveVariants (proxyRules shared_target_rules) cart_60)
        ''gid://shopify/ProductVariant/101''
   \<and> jsmap_has (shouldHaveVariants (proxyRules shared_target_rules) cart_60)
        ''gid://shopify/ProductVariant/102''"
  by (simp add: shared_target_rules_def cart_60_def rule_of_def cond_of_def total_gte_def
      manual_item_def proxyRules_def evaluateRule_def conditionPasses_def truthy_def
      shouldHaveVariants_def jsmap_has_def)

text \<open>
  C6, amended: when two active rules of the stored rule set share a non-empty group and
  both match the cart, the rule \<open>w\<close> that comes first among the matching rules of the
  group has its target variant in the should-have map, every entry of the map that holds
  a rule of the group holds \<open>w\<close>, and any other key of the map is the target of a
  matching rule outside the group: no later rule of the group puts its variant into the
  map, and its variant is a key only when a matching rule outside the group targets it.
\<close>

theorem group_first_match_wins:
  assumes "i < j" and "j < length stored"
    and "active (stored ! i)" and "active (stored ! j)"
    and "group (stored ! i) = Some g" and "group (stored ! j) = Some g" and "g \<noteq> []"
    and "evaluateRule (stored ! i) c" and "evaluateRule (stored ! j) c"
  shows "\<exists>w. find (\<lambda>x. active x \<and> evaluateRule x c \<and> group x = Some g) stored = Some w
           \<and> jsmap_has (shouldHaveVariants (proxyRules stored) c) (addVariantId (action w))
           \<and> (\<forall>v r. (v, r) \<in> set (shouldHaveVariants (proxyRules stored) c) \<and> group r = Some g
                 \<longrightarrow> r = w \<and> v = addVariantId (action w))
           \<and> (\<forall>v. jsmap_has (shouldHaveVariants (proxyRules stored) c) v
                   \<and> v \<noteq> addVariantId (action w)
                 \<longrightarrow> (\<exists>r \<in> set stored. active r \<and> evaluateRule r c \<and> group r \<noteq> Some g
                        \<and> addVariantId (action r) = v))"
proof -
  let ?P = "\<lambda>x. active x \<and> evaluateRule x c \<and> group x = Some g"
  let ?S = "shouldHaveVariants (proxyRules stored) c"
  have "stored ! i \<in> set stored" using assms(1,2) by simp
  with assms have "find ?P stored \<noteq> None"
    by (auto simp: find_None_iff)
  then obtain w where w: "find ?P stored = Some w" by blast
  then have w': "find (\<lambda>x. evaluateRule x c \<and> group x = Some g) (proxyRules stored) = Some w"
    by (simp add: proxyRules_def find_filter)
  have has: "jsmap_has ?S (addVariantId (action w))"
    unfolding shouldHaveVariants_def using w' \<open>g \<noteq> []\<close> by (rule matchRules_winner) simp
  have entry: "r \<in> set (proxyRules stored) \<and> evaluateRule r c \<and> v = addVariantId (action r)
      \<and> (truthy (group r) \<longrightarrow>
           find (\<lambda>x. evaluateRule x c \<and> group x = group r) (proxyRules stored) = Some r)"
    if "(v, r) \<in> set ?S" for v r
    using matchRules_entry [of v r "proxyRules stored" c "[]" "{}"] that
    by (auto simp: shouldHaveVariants_def)
  have only: "r = w \<and> v = addVariantId (action w)"
    if "(v, r) \<in> set ?S" and "group r = Some g" for v r
    using entry [OF that(1)] that(2) w' \<open>g \<noteq> []\<close> by (simp add: truthy_def)
  have other: "\<exists>r \<in> set stored. active r \<and> evaluateRule r c \<and> group r \<noteq> Some g
      \<and> addVariantId (action r) = v"
    if "jsmap_has ?S v" and "v \<noteq> addVariantId (action w)" for v
  proof -
    from that(1) obtain r where r: "(v, r) \<in> set ?S"
      by (auto simp: jsmap_has_def)
    from entry [OF r] have "r \<in> set stored" "active r" "evaluateRule r c" "v = addVariantId (action r)"
      by (auto simp: proxyRules_def)
    moreover have "group r \<noteq> Some g" using only [OF r] that(2) by auto
    ultimately show ?thesis by auto
  qed
  from w has only other show ?thesis by blast
qed

theorem group_first_match_wins_witness:
  "(0::nat) < 1 \<and> 1 < length tier_rules
   \<and> active (tier_rules ! 0) \<and> active (tier_rules ! 1)
   \<and> group (tier_rules ! 0) = Some ''tier'' \<and> group (tier_rules ! 1) = Some ''tier''
   \<and> ''tier'' \<noteq> []
   \<and> evaluateRule (tier_rules ! 0) cart_60 \<and> evaluateRule (tier_rules ! 1) cart_60
   \<and> find (\<lambda>x. active x \<and> evaluateRule x cart_60 \<and> group x = Some ''tier'') tier_rules
        = Some (tier_rules ! 0)
   \<and> jsmap_has (shouldHaveVariants (proxyRules tier_rules) cart_60)
        ''gid://shopify/ProductVariant/101''
   \<and> \<not> jsmap_has (shouldHaveVariants (proxyRules tier_rules) cart_60)
        ''gid://shopify/ProductVariant/102''"
proof -
  let ?S = "shouldHaveVariants (proxyRules tier_rules) cart_60"
  have h: "(0::nat) < 1" "1 < length tier_rules"
    "active (tier_rules ! 0)" "active (tier_rules ! 1)"
    "group (tier_rules ! 0) = Some ''tier''" "group (tier_rules ! 1) = Some ''tier''"
    "''tier'' \<noteq> []"
    "evaluateRule (tier_rules ! 0) cart_60" "evaluateRule (tier_rules ! 1) cart_60"
    by (simp_all add: storefront_example_simps)
  have first: "find (\<lambda>x. active x \<and> evaluateRule x cart_60 \<and> group x = Some ''tier'') tier_rules
      = Some (tier_rules ! 0)"
    and target: "addVariantId (action (tier_rules ! 0)) = ''gid://shopify/ProductVariant/101''"
    and grouped: "\<forall>r \<in> set tier_rules. group r = Some ''tier''"
    by (simp_all add: tier_rules_def cart_60_def rule_of_def cond_of_def total_gte_def
        evaluateRule_def conditionPasses_def)
  from group_first_match_wins [OF h] first target
  have has: "jsmap_has ?S ''gid://shopify/ProductVariant/101''"
    and other: "\<forall>v. jsmap_has ?S v \<and> v \<noteq> ''gid://shopify/ProductVariant/101''
        \<longrightarrow> (\<exists>r \<in> set tier_rules. active r \<and> evaluateRule r cart_60
               \<and> group r \<noteq> Some ''tier'' \<and> addVariantId (action r) = v)"
    by auto
  from other grouped have "\<not> jsmap_has ?S ''gid://shopify/ProductVariant/102''"
    by fastforce
  with h first has show ?thesis
    by (intro conjI)
qed

text \<open>The scenario of two tiered rules: only the first rule's variant is in the map.\<close>

lemma tier_rules_shouldHave:
  "shouldHaveVariants (proxyRules tier_rules) cart_60
     = [(''gid://shopify/ProductVariant/101'', tier_rules ! 0)]"
  by (simp add: storefront_example_simps)

section \<open>Rules without conditions\<close>

text \<open>
  The transform-time \<open>ruleApplies\<close> has no guard for a rule without conditions. Its loop
  over the empty condition list ends at once and the function returns \<open>true\<close>: an active
  rule without conditions applies to every input, here to a cart of three items
  (C5 as stated fails here).
\<close>

theorem ruleApplies_no_conditions:
  "active rule_no_conditions \<and> conditions rule_no_conditions = []
   \<and> ruleApplies rule_no_conditions (input_qty 3) = True"
  by (simp add: ruleApplies_def rule_no_conditions_def rule_of_def)

text \<open>
  C5, amended: at storefront runtime a rule without conditions never matches.
  \<open>evaluateRule\<close> returns \<open>False\<close> for it on every cart, which is a value and not an
  error, and the should-have map of a cycle never holds an entry for it, whatever the
  other rules are.
\<close>

theorem no_conditions_never_match:
  assumes "conditions rule = []"
  shows "evaluateRule rule c = False \<and> (\<forall>v. (v, rule) \<notin> set (shouldHaveVariants rs c))"
proof -
  have no: "evaluateRule rule c = False"
    using assms by (simp add: evaluateRule_def)
  have "(v, rule) \<notin> set (shouldHaveVariants rs c)" for v
    using matchRules_entry [of v rule rs c "[]" "{}"] no
    by (auto simp: shouldHaveVariants_def)
  with no show ?thesis by blast
qed

theorem no_conditions_never_match_witness:
  "conditions rule_no_conditions = []
   \<and> evaluateRule rule_no_conditions cart_60 = False
   \<and> (''gid://shopify/ProductVariant/1'', rule_no_conditions)
        \<notin> set (shouldHaveVariants [rule_no_conditions, rule_qty2] cart_60)"
proof -
  have h: "conditions rule_no_conditions = []"
    by (simp add: rule_no_conditions_def rule_of_def)
  from no_conditions_never_match [OF h, of cart_60 "[rule_no_conditions, rule_qty2]"] h
  show ?thesis by blast
qed

text \<open>With a second rule that matches, the map holds that rule's entry only.\<close>

lemma no_conditions_shouldHave:
  "shouldHaveVariants [rule_no_conditions, rule_qty2] cart_60
     = [(''gid://shopify/ProductVariant/101'', rule_qty2)]"
  by (simp add: storefront_example_simps rule_no_conditions_def rule_qty2_def)

section \<open>Reconciliation\<close>

lemmas cycle_simps =
  cycleIntents_def autoAddedItems_def is_auto_added_def AUTO_ADD_PROPERTY_def
  variantGid_def gid_variant_def gid_product_def jsmap_has_def jsmap_delete_def
  storefront_example_simps String.simps digit_char_def
  rule_qty2_def cart_gift2_def cart_manual_gift_def two_tier_rules_def cart_50_def
  product_rules_def product_range_def cart_mixed_def

lemmas apply_simps =
  apply_intents_def cart_add_def cart_change_def gift_line_def gift_shop_def free_shop_def
  posted_id_def parseInt_def is_space_def is_digit_def digit_value_def auto_properties_def new_key_def

text \<open>
  When the engine is not busy and the cart token is not the one it saw last,
  \<open>processCart\<close> makes the requests of one cycle; after a cycle that made requests the
  token is forgotten, so the next call evaluates the cart again.
\<close>

lemma processCart_runs_cycle:
  assumes "\<not> processing st" and "lastCartToken st \<noteq> Some (token c)"
  shows "fst (processCart st (Some c)) = cycleIntents (rules st) c"
    and "cycleIntents (rules st) c \<noteq> [] \<Longrightarrow> lastCartToken (snd (processCart st (Some c))) = None"
    and "\<not> processing (snd (processCart st (Some c)))"
  using assms by (auto simp: processCart_def Let_def)

text \<open>What each loop of the cycle requests, and what the first loop leaves of the map.\<close>

lemma checkAutoAdded_intents:
  "set (fst (checkAutoAdded its sh))
     \<subseteq> (\<lambda>j. Remove (key j)) ` set its \<union> (\<lambda>j. SetQuantity (key j) 1) ` set its"
proof (induction its arbitrary: sh)
  case Nil
  then show ?case by simp
next
  case (Cons it its)
  from Cons.IH [of sh] Cons.IH [of "jsmap_delete sh (variantGid it)"]
  show ?case
    by (auto split: prod.splits)
qed

lemma checkAutoAdded_rest:
  "snd (checkAutoAdded its sh) = filter (\<lambda>p. fst p \<notin> variantGid ` set its) sh"
proof (induction its arbitrary: sh)
  case Nil
  then show ?case by simp
next
  case (Cons it its)
  have "filter (\<lambda>p. fst p \<notin> variantGid ` set its) sh
          = filter (\<lambda>p. fst p \<notin> variantGid ` set (it # its)) sh"
    if "\<not> jsmap_has sh (variantGid it)"
    using that by (intro filter_cong refl) (force simp: jsmap_has_def)
  moreover have "filter (\<lambda>p. fst p \<notin> variantGid ` set its) (jsmap_delete sh (variantGid it))
          = filter (\<lambda>p. fst p \<notin> variantGid ` set (it # its)) sh"
    by (auto simp: jsmap_delete_def intro!: filter_cong)
  ultimately show ?case
    using Cons.IH [of sh] Cons.IH [of "jsmap_delete sh (variantGid it)"]
    by (auto split: prod.splits)
qed

lemma addMissing_intents:
  "x \<in> set (addMissing sh c) \<Longrightarrow>
     (\<exists>v. x = Add v 1 \<and> jsmap_has sh v
           \<and> (\<forall>j \<in> set (items c). String (variant_id j) \<noteq> str_replace gid_variant [] v))
     \<or> (\<exists>e \<in> set (items c). is_auto_added e \<and> x = SetQuantity (key e) 1)"
proof (induction sh)
  case Nil
  then show ?case by simp
next
  case (Cons p sh)
  obtain v r where p: "p = (v, r)" by (cases p)
  let ?f = "find (\<lambda>it. String (variant_id it) = str_replace gid_variant [] v) (items c)"
  from Cons.prems p
  consider "x \<in> set (addMissing sh c)" | "?f = None" "x = Add v 1"
    | e where "?f = Some e" "is_auto_added e" "x = SetQuantity (key e) 1"
    by (auto simp: Let_def split: option.splits if_splits)
  then show ?case
  proof cases
    case 1
    from Cons.IH [OF this] show ?thesis by (auto simp: jsmap_has_def)
  next
    case 2
    then show ?thesis by (auto simp: find_None_iff p jsmap_has_def)
  next
    case 3
    then have "e \<in> set (items c)" by (auto simp: find_Some_iff in_set_conv_nth)
    with 3 show ?thesis by auto
  qed
qed

lemma addMissing_adds:
  "jsmap_has sh v \<Longrightarrow>
   \<forall>j \<in> set (items c). String (variant_id j) \<noteq> str_replace gid_variant [] v \<Longrightarrow>
   Add v 1 \<in> set (addMissing sh c)"
proof (induction sh)
  case Nil
  then show ?case by (simp add: jsmap_has_def)
next
  case (Cons p sh)
  obtain v' r where p: "p = (v', r)" by (cases p)
  show ?case
  proof (cases "v' = v")
    case True
    with Cons.prems(2) have "find (\<lambda>it. String (variant_id it) = str_replace gid_variant [] v') (items c) = None"
      by (auto simp: find_None_iff)
    with True p show ?thesis by simp
  next
    case False
    with Cons.prems p have "jsmap_has sh v" by (auto simp: jsmap_has_def)
    from Cons.IH [OF this Cons.prems(2)] p show ?thesis
      by (auto simp: Let_def split: option.splits)
  qed
qed

lemma variantGid_inj: "variantGid a = variantGid b \<Longrightarrow> variant_id a = variant_id b"
  by (simp add: variantGid_def String_inj)

lemma checkAutoAdded_sets_quantity:
  "jsmap_has sh (variantGid it) \<Longrightarrow> quantity it \<noteq> 1 \<Longrightarrow>
   \<forall>j \<in> set pre. variant_id j \<noteq> variant_id it \<Longrightarrow>
   SetQuantity (key it) 1 \<in> set (fst (checkAutoAdded (pre @ it # post) sh))"
proof (induction pre arbitrary: sh)
  case Nil
  then show ?case by (auto split: prod.splits)
next
  case (Cons j pre)
  from Cons.prems(3) have ne: "variantGid j \<noteq> variantGid it"
    by (auto dest: variantGid_inj)
  with Cons.prems(1) have "jsmap_has (jsmap_delete sh (variantGid j)) (variantGid it)"
    by (auto simp: jsmap_has_def jsmap_delete_def)
  with Cons.prems Cons.IH [of sh] Cons.IH [of "jsmap_delete sh (variantGid j)"]
  show ?case
    by (auto split: prod.splits)
qed

lemma cycleIntents_conv:
  "cycleIntents rs c =
     fst (checkAutoAdded (autoAddedItems c) (shouldHaveVariants rs c))
     @ addMissing (snd (checkAutoAdded (autoAddedItems c) (shouldHaveVariants rs c))) c"
  by (simp add: cycleIntents_def case_prod_beta)

text \<open>
  The rule \<open>rule_qty2\<close> asks for quantity \<open>2\<close>. On a cart without the gift the engine
  requests one unit, and on a cart whose auto-added gift line already has quantity \<open>2\<close>
  it requests that the line be set to \<open>1\<close>: the quantity of the rule's action is not
  read (C3 as stated fails here).
\<close>

theorem action_quantity_ignored:
  "action_quantity (action rule_qty2) = Some 2
   \<and> cycleIntents [rule_qty2] cart_60 = [Add ''gid://shopify/ProductVariant/101'' 1]
   \<and> cycleIntents [rule_qty2] cart_gift2 = [SetQuantity ''k2'' 1]"
  by (simp add: cycle_simps)

text \<open>
  C3, amended: every \<open>Add\<close> and every \<open>SetQuantity\<close> that a cycle requests carries the
  quantity \<open>1\<close>, whatever the quantity of the rule's action is. For a should-have entry
  whose variant has no line in the cart, the cycle requests \<open>Add\<close> of that variant with
  quantity \<open>1\<close>; for the first auto-added line of a should-have variant whose quantity
  is not \<open>1\<close>, it requests \<open>SetQuantity\<close> of that line to \<open>1\<close>.
\<close>

theorem intents_carry_quantity_one:
  "(\<forall>x \<in> set (cycleIntents rs c).
      case x of Add v q \<Rightarrow> q = 1 | SetQuantity k q \<Rightarrow> q = 1 | Remove k \<Rightarrow> True)
   \<and> (\<forall>v. jsmap_has (shouldHaveVariants rs c) v
          \<and> (\<forall>j \<in> set (items c). String (variant_id j) \<noteq> str_replace gid_variant [] v)
        \<longrightarrow> Add v 1 \<in> set (cycleIntents rs c))
   \<and> (\<forall>pre it post. autoAddedItems c = pre @ it # post
          \<and> (\<forall>j \<in> set pre. variant_id j \<noteq> variant_id it)
          \<and> jsmap_has (shouldHaveVariants rs c) (variantGid it) \<and> quantity it \<noteq> 1
        \<longrightarrow> SetQuantity (key it) 1 \<in> set (cycleIntents rs c))"
proof (intro conjI allI ballI impI)
  fix x
  assume "x \<in> set (cycleIntents rs c)"
  then consider "x \<in> set (fst (checkAutoAdded (autoAddedItems c) (shouldHaveVariants rs c)))"
    | "x \<in> set (addMissing (snd (checkAutoAdded (autoAddedItems c) (shouldHaveVariants rs c))) c)"
    by (auto simp: cycleIntents_conv)
  then show "case x of Add v q \<Rightarrow> q = 1 | SetQuantity k q \<Rightarrow> q = 1 | Remove k \<Rightarrow> True"
  proof cases
    case 1
    with checkAutoAdded_intents show ?thesis by fastforce
  next
    case 2
    from addMissing_intents [OF this] show ?thesis by auto
  qed
next
  fix v
  assume a: "jsmap_has (shouldHaveVariants rs c) v
    \<and> (\<forall>j \<in> set (items c). String (variant_id j) \<noteq> str_replace gid_variant [] v)"
  have "v \<notin> variantGid ` set (autoAddedItems c)"
  proof
    assume "v \<in> variantGid ` set (autoAddedItems c)"
    then obtain j where "j \<in> set (items c)" "v = variantGid j"
      by (auto simp: autoAddedItems_def)
    with a numericId_variantGid [of j] show False by auto
  qed
  with a have "jsmap_has (snd (checkAutoAdded (autoAddedItems c) (shouldHaveVariants rs c))) v"
    by (auto simp: checkAutoAdded_rest jsmap_has_def)
  from addMissing_adds [OF this] a show "Add v 1 \<in> set (cycleIntents rs c)"
    by (auto simp: cycleIntents_conv)
next
  fix pre it post
  assume a: "autoAddedItems c = pre @ it # post
    \<and> (\<forall>j \<in> set pre. variant_id j \<noteq> variant_id it)
    \<and> jsmap_has (shouldHaveVariants rs c) (variantGid it) \<and> quantity it \<noteq> 1"
  then have "SetQuantity (key it) 1
      \<in> set (fst (checkAutoAdded (pre @ it # post) (shouldHaveVariants rs c)))"
    by (intro checkAutoAdded_sets_quantity) auto
  with a show "SetQuantity (key it) 1 \<in> set (cycleIntents rs c)"
    by (auto simp: cycleIntents_conv)
qed

theorem intents_carry_quantity_one_witness:
  "jsmap_has (shouldHaveVariants [rule_qty2] cart_60) ''gid://shopify/ProductVariant/101''
   \<and> str_replace gid_variant [] ''gid://shopify/ProductVariant/101'' = ''101''
   \<and> map (\<lambda>j. String (variant_id j)) (items cart_60) = [''11'']
   \<and> Add ''gid://shopify/ProductVariant/101'' 1 \<in> set (cycleIntents [rule_qty2] cart_60)
   \<and> autoAddedItems cart_gift2 = [] @ gift_item ''k2'' 101 7 2 0 # []
   \<and> jsmap_has (shouldHaveVariants [rule_qty2] cart_gift2) (variantGid (gift_item ''k2'' 101 7 2 0))
   \<and> quantity (gift_item ''k2'' 101 7 2 0) \<noteq> 1
   \<and> SetQuantity (key (gift_item ''k2'' 101 7 2 0)) 1 \<in> set (cycleIntents [rule_qty2] cart_gift2)"
proof -
  have h1: "jsmap_has (shouldHaveVariants [rule_qty2] cart_60) ''gid://shopify/ProductVariant/101''"
    and h2: "str_replace gid_variant [] ''gid://shopify/ProductVariant/101'' = ''101''"
    and h3: "map (\<lambda>j. String (variant_id j)) (items cart_60) = [''11'']"
    by (simp_all add: cycle_simps)
  from h2 h3 have h4: "\<forall>j \<in> set (items cart_60).
      String (variant_id j) \<noteq> str_replace gid_variant [] ''gid://shopify/ProductVariant/101''"
    by (simp add: cart_60_def)
  have g1: "autoAddedItems cart_gift2 = [] @ gift_item ''k2'' 101 7 2 0 # []"
    and g2: "\<forall>j \<in> set []. variant_id j \<noteq> variant_id (gift_item ''k2'' 101 7 2 0)"
    and g3: "jsmap_has (shouldHaveVariants [rule_qty2] cart_gift2)
               (variantGid (gift_item ''k2'' 101 7 2 0))"
    and g4: "quantity (gift_item ''k2'' 101 7 2 0) \<noteq> 1"
    by (simp_all add: cycle_simps)
  from intents_carry_quantity_one [of "[rule_qty2]" cart_60] h1 h4
  have a: "Add ''gid://shopify/ProductVariant/101'' 1 \<in> set (cycleIntents [rule_qty2] cart_60)"
    by blast
  from intents_carry_quantity_one [of "[rule_qty2]" cart_gift2] g1 g2 g3 g4
  have b: "SetQuantity (key (gift_item ''k2'' 101 7 2 0)) 1 \<in> set (cycleIntents [rule_qty2] cart_gift2)"
    by blast
  from h1 h2 h3 a g1 g3 g4 b show ?thesis
    by (intro conjI)
qed

text \<open>
  C7: a line of the cart that the customer added (it does not carry the auto-add
  property) and whose variant is that of a should-have entry is left alone by the cycle:
  no request removes it, none sets its quantity, and no \<open>Add\<close> is made for its variant
  (none whose id, once the GID prefix is taken off, is the variant id of the line, and so
  none with the GID of that variant). Line keys identify the lines of a cart.
\<close>

theorem manual_lines_untouched:
  assumes "it \<in> set (items c)" and "\<not> is_auto_added it"
    and "distinct (map key (items c))"
    and "jsmap_has (shouldHaveVariants rs c) v"
    and "str_replace gid_variant [] v = String (variant_id it)"
  shows "Remove (key it) \<notin> set (cycleIntents rs c)
         \<and> (\<forall>q. SetQuantity (key it) q \<notin> set (cycleIntents rs c))
         \<and> (\<forall>v' q. Add v' q \<in> set (cycleIntents rs c)
               \<longrightarrow> str_replace gid_variant [] v' \<noteq> String (variant_id it))
         \<and> (\<forall>n q. Add (gid_variant @ String n) q \<in> set (cycleIntents rs c)
               \<longrightarrow> n \<noteq> variant_id it)"
proof -
  have other: "j \<noteq> it \<and> key j \<noteq> key it" if "j \<in> set (items c)" "is_auto_added j" for j
  proof -
    from that assms(2) have "j \<noteq> it" by auto
    with assms(1,3) that(1) show ?thesis
      by (auto simp: distinct_map dest: inj_onD)
  qed
  have cases: "(\<exists>j \<in> set (items c). is_auto_added j
                  \<and> (x = Remove (key j) \<or> x = SetQuantity (key j) 1))
       \<or> (\<exists>v'. x = Add v' 1
             \<and> (\<forall>j \<in> set (items c). String (variant_id j) \<noteq> str_replace gid_variant [] v'))"
    if "x \<in> set (cycleIntents rs c)" for x
  proof -
    from that consider
      "x \<in> set (fst (checkAutoAdded (autoAddedItems c) (shouldHaveVariants rs c)))"
      | "x \<in> set (addMissing (snd (checkAutoAdded (autoAddedItems c) (shouldHaveVariants rs c))) c)"
      by (auto simp: cycleIntents_conv)
    then show ?thesis
    proof cases
      case 1
      with checkAutoAdded_intents [of "autoAddedItems c" "shouldHaveVariants rs c"]
      show ?thesis by (auto simp: autoAddedItems_def)
    next
      case 2
      from addMissing_intents [OF this] show ?thesis by auto
    qed
  qed
  have "Remove (key it) \<notin> set (cycleIntents rs c)
      \<and> (\<forall>q. SetQuantity (key it) q \<notin> set (cycleIntents rs c))
      \<and> (\<forall>v' q. Add v' q \<in> set (cycleIntents rs c)
            \<longrightarrow> str_replace gid_variant [] v' \<noteq> String (variant_id it))"
    using cases other assms(1) by fastforce
  moreover from this
  have "\<forall>n q. Add (gid_variant @ String n) q \<in> set (cycleIntents rs c) \<longrightarrow> n \<noteq> variant_id it"
    by (auto simp: str_replace_prefix)
  ultimately show ?thesis by blast
qed

theorem manual_lines_untouched_witness:
  "manual_item ''k3'' 101 7 3 0 \<in> set (items cart_manual_gift)
   \<and> \<not> is_auto_added (manual_item ''k3'' 101 7 3 0)
   \<and> distinct (map key (items cart_manual_gift))
   \<and> jsmap_has (shouldHaveVariants [rule_qty2] cart_manual_gift) ''gid://shopify/ProductVariant/101''
   \<and> str_replace gid_variant [] ''gid://shopify/ProductVariant/101''
        = String (variant_id (manual_item ''k3'' 101 7 3 0))
   \<and> Remove ''k3'' \<notin> set (cycleIntents [rule_qty2] cart_manual_gift)
   \<and> SetQuantity ''k3'' 1 \<notin> set (cycleIntents [rule_qty2] cart_manual_gift)
   \<and> SetQuantity ''k3'' 2 \<notin> set (cycleIntents [rule_qty2] cart_manual_gift)
   \<and> Add ''gid://shopify/ProductVariant/101'' 1 \<notin> set (cycleIntents [rule_qty2] cart_manual_gift)
   \<and> Add ''gid://shopify/ProductVariant/101'' 2 \<notin> set (cycleIntents [rule_qty2] cart_manual_gift)"
proof -
  have h: "manual_item ''k3'' 101 7 3 0 \<in> set (items cart_manual_gift)"
    "\<not> is_auto_added (manual_item ''k3'' 101 7 3 0)"
    "distinct (map key (items cart_manual_gift))"
    "jsmap_has (shouldHaveVariants [rule_qty2] cart_manual_gift) ''gid://shopify/ProductVariant/101''"
    "str_replace gid_variant [] ''gid://shopify/ProductVariant/101''
        = String (variant_id (manual_item ''k3'' 101 7 3 0))"
    by (simp_all add: cycle_simps)
  have k: "key (manual_item ''k3'' 101 7 3 0) = ''k3''"
    by (simp add: manual_item_def)
  from manual_lines_untouched [OF h] have
    "Remove ''k3'' \<notin> set (cycleIntents [rule_qty2] cart_manual_gift)"
    "SetQuantity ''k3'' 1 \<notin> set (cycleIntents [rule_qty2] cart_manual_gift)"
    "SetQuantity ''k3'' 2 \<notin> set (cycleIntents [rule_qty2] cart_manual_gift)"
    "Add ''gid://shopify/ProductVariant/101'' 1 \<notin> set (cycleIntents [rule_qty2] cart_manual_gift)"
    "Add ''gid://shopify/ProductVariant/101'' 2 \<notin> set (cycleIntents [rule_qty2] cart_manual_gift)"
    unfolding k using h(5) by blast+
  with h show ?thesis
    by (intro conjI)
qed

text \<open>The manual line has quantity \<open>3\<close>; the cycle requests nothing at all.\<close>

lemma manual_gift_no_intents:
  "cycleIntents [rule_qty2] cart_manual_gift = []"
  by (simp add: cycle_simps)

section \<open>Gift lines and the product quantity\<close>

text \<open>The counting loop of the storefront skips the auto-added lines.\<close>

lemma productQty_manual:
  "productQty its t = productQty (filter (\<lambda>it. \<not> is_auto_added it) its) t"
  by (induction its) simp_all

lemma conditionPasses_stable:
  assumes "filter (\<lambda>it. \<not> is_auto_added it) (items c1) = filter (\<lambda>it. \<not> is_auto_added it) (items c2)"
    and "ctype cond \<noteq> ''cart_total_gte'' \<or> total_price c1 = total_price c2"
  shows "conditionPasses cond c1 = conditionPasses cond c2"
proof -
  have "productQty (items c1) t = productQty (items c2) t" for t
    using assms(1) productQty_manual [of "items c1" t] productQty_manual [of "items c2" t] by simp
  with assms(2) show ?thesis
    by (auto simp: conditionPasses_def)
qed

lemma conditionsPass_stable:
  assumes "filter (\<lambda>it. \<not> is_auto_added it) (items c1) = filter (\<lambda>it. \<not> is_auto_added it) (items c2)"
    and "(\<forall>cond \<in> set cs. ctype cond \<noteq> ''cart_total_gte'') \<or> total_price c1 = total_price c2"
  shows "conditionsPass cs c1 = conditionsPass cs c2"
  using assms(2)
proof (induction cs)
  case Nil
  then show ?case by simp
next
  case (Cons cond cs)
  have "conditionPasses cond c1 = conditionPasses cond c2"
    using assms(1) Cons.prems by (intro conditionPasses_stable) auto
  moreover have "conditionsPass cs c1 = conditionsPass cs c2"
    using Cons.prems by (intro Cons.IH) auto
  ultimately show ?case by simp
qed

text \<open>
  The transform-time \<open>ruleApplies\<close> has no mark for engine-added lines in its input and
  sums every product-variant line of the product. With the range \<open>[1, 1]\<close> on product
  \<open>7\<close>, the rule applies to a cart with one unit of the product and stops applying when
  the rule's own gift, a variant of the same product, is in the cart as well
  (C2 as stated fails here).
\<close>

theorem ruleApplies_counts_every_line:
  "ruleApplies rule_p7 input_p7 \<and> \<not> ruleApplies rule_p7 input_p7_gift"
  by (simp add: ruleApplies_def conditionHolds_def rule_p7_def input_p7_def input_p7_gift_def
      product_range_def rule_of_def cond_of_def input_of_def variant_line_def line_pid_def
      trim_def is_space_def)

text \<open>
  C2, amended: at storefront runtime the quantity that \<open>product_quantity_in_range\<close> sums
  leaves out the lines that carry the auto-add property. Two carts with the same
  customer-added lines give the same counted quantity for every product and the same
  verdict for every condition of this kind: adding, removing or changing an engine-added
  line never moves the count into or out of the range.
\<close>

theorem gift_lines_not_counted:
  assumes "ctype cond = ''product_quantity_in_range''"
    and "filter (\<lambda>it. \<not> is_auto_added it) (items c1) = filter (\<lambda>it. \<not> is_auto_added it) (items c2)"
  shows "productQty (items c1) p = productQty (items c2) p
         \<and> conditionPasses cond c1 = conditionPasses cond c2"
proof
  show "productQty (items c1) p = productQty (items c2) p"
    using assms(2) productQty_manual [of "items c1" p] productQty_manual [of "items c2" p]
    by simp
  show "conditionPasses cond c1 = conditionPasses cond c2"
    using assms by (intro conditionPasses_stable) auto
qed

theorem gift_lines_not_counted_witness:
  "ctype (product_range ''gid://shopify/Product/7'' 1 (Some 1)) = ''product_quantity_in_range''
   \<and> filter (\<lambda>it. \<not> is_auto_added it) (items cart_p7)
       = filter (\<lambda>it. \<not> is_auto_added it) (items cart_p7_gift)
   \<and> productQty (items cart_p7) ''7'' = 1
   \<and> productQty (items cart_p7_gift) ''7'' = 1
   \<and> conditionPasses (product_range ''gid://shopify/Product/7'' 1 (Some 1)) cart_p7
   \<and> conditionPasses (product_range ''gid://shopify/Product/7'' 1 (Some 1)) cart_p7_gift"
proof -
  have h: "ctype (product_range ''gid://shopify/Product/7'' 1 (Some 1)) = ''product_quantity_in_range''"
    "filter (\<lambda>it. \<not> is_auto_added it) (items cart_p7)
       = filter (\<lambda>it. \<not> is_auto_added it) (items cart_p7_gift)"
    by (simp_all add: product_range_def cond_of_def cart_p7_def cart_p7_gift_def
        manual_item_def gift_item_def is_auto_added_def AUTO_ADD_PROPERTY_def)
  have e: "productQty (items cart_p7) ''7'' = 1"
    "conditionPasses (product_range ''gid://shopify/Product/7'' 1 (Some 1)) cart_p7"
    by (simp_all add: product_range_def cond_of_def cart_p7_def manual_item_def
        is_auto_added_def conditionPasses_def gid_product_def String.simps digit_char_def)
  from gift_lines_not_counted [OF h, of "''7''"] h e show ?thesis
    by simp
qed

section \<open>A second cycle\<close>

text \<open>Setting a quantity changes neither the mark of a line nor its variant.\<close>

lemma is_auto_added_quantity [simp]: "is_auto_added (it\<lparr>quantity := q\<rparr>) = is_auto_added it"
  by (simp add: is_auto_added_def)

lemma variantGid_quantity [simp]: "variantGid (it\<lparr>quantity := q\<rparr>) = variantGid it"
  by (simp add: variantGid_def)

lemma jsmap_has_delete: "jsmap_has (jsmap_delete sh k) k' = (k' \<noteq> k \<and> jsmap_has sh k')"
  by (auto simp: jsmap_has_def jsmap_delete_def)

lemma variantGid_eq: "(variantGid a = variantGid b) = (variant_id a = variant_id b)"
  by (auto simp: variantGid_def dest: String_inj)

text \<open>On a settled cart neither loop of the cycle requests anything.\<close>

lemma checkAutoAdded_settled:
  "\<forall>it \<in> set its. quantity it = 1 \<and> jsmap_has sh (variantGid it) \<Longrightarrow>
   distinct (map variant_id its) \<Longrightarrow>
   fst (checkAutoAdded its sh) = []"
proof (induction its arbitrary: sh)
  case Nil
  then show ?case by simp
next
  case (Cons it its)
  have "variant_id it \<notin> variant_id ` set its"
    using Cons.prems(2) by simp
  then have "variant_id j \<noteq> variant_id it" if "j \<in> set its" for j
    using that by (metis imageI)
  then have "\<forall>j \<in> set its. quantity j = 1 \<and> jsmap_has (jsmap_delete sh (variantGid it)) (variantGid j)"
    using Cons.prems(1) by (simp add: jsmap_has_delete variantGid_eq)
  from Cons.IH [OF this] Cons.prems show ?case
    by (auto split: prod.splits)
qed

lemma addMissing_settled:
  "\<forall>it \<in> set (items c). is_auto_added it \<longrightarrow> quantity it = 1 \<Longrightarrow>
   \<forall>v \<in> fst ` set sh. \<exists>it \<in> set (items c). String (variant_id it) = str_replace gid_variant [] v \<Longrightarrow>
   addMissing sh c = []"
proof (induction sh)
  case Nil
  then show ?case by simp
next
  case (Cons p sh)
  obtain v r where p: "p = (v, r)" by (cases p)
  let ?f = "find (\<lambda>it. String (variant_id it) = str_replace gid_variant [] v) (items c)"
  from Cons.prems(2) p have "?f \<noteq> None"
    by (auto simp: find_None_iff)
  then obtain e where e: "?f = Some e" by blast
  then have "e \<in> set (items c)"
    by (auto simp: find_Some_iff in_set_conv_nth)
  with Cons.prems(1) have "is_auto_added e \<longrightarrow> quantity e = 1" by blast
  moreover have "addMissing sh c = []"
    using Cons.prems by (intro Cons.IH) auto
  ultimately show ?case
    using e p by (auto simp: Let_def)
qed

lemma settled_no_intents:
  assumes "settled sh (items c)"
  shows "fst (checkAutoAdded (autoAddedItems c) sh) @ addMissing (snd (checkAutoAdded (autoAddedItems c) sh)) c = []"
proof -
  have "fst (checkAutoAdded (autoAddedItems c) sh) = []"
    using assms by (intro checkAutoAdded_settled) (auto simp: settled_def autoAddedItems_def)
  moreover have "addMissing (snd (checkAutoAdded (autoAddedItems c) sh)) c = []"
    using assms by (intro addMissing_settled) (auto simp: settled_def checkAutoAdded_rest)
  ultimately show ?thesis by simp
qed

text \<open>
  The requests of the first loop, done on a cart with distinct line keys, leave the items
  that \<open>after_check\<close> describes; the requests of the second loop put the lines of
  \<open>added_lines\<close> in front of them.
\<close>

lemma items_cart_change:
  "items (cart_change k q c) =
     (if q = 0 then filter (\<lambda>it. key it \<noteq> k) (items c)
      else map (\<lambda>it. if key it = k then it\<lparr>quantity := q\<rparr> else it) (items c))"
  by (simp add: cart_change_def)

lemma remove_distinct:
  assumes "distinct (map key (pre @ it # its))"
  shows "filter (\<lambda>j. key j \<noteq> key it) (pre @ it # its) = pre @ its"
proof -
  have "\<forall>j \<in> set pre \<union> set its. key j \<noteq> key it"
    using assms by (auto simp: image_iff)
  then have "filter (\<lambda>j. key j \<noteq> key it) pre = pre" "filter (\<lambda>j. key j \<noteq> key it) its = its"
    by (simp_all add: filter_id_conv)
  then show ?thesis by simp
qed

lemma update_distinct:
  assumes "distinct (map key (pre @ it # its))"
  shows "map (\<lambda>j. if key j = key it then j\<lparr>quantity := q\<rparr> else j) (pre @ it # its)
           = pre @ it\<lparr>quantity := q\<rparr> # its"
proof -
  have "\<forall>j \<in> set pre \<union> set its. key j \<noteq> key it"
    using assms by (auto simp: image_iff)
  then have "map (\<lambda>j. if key j = key it then j\<lparr>quantity := q\<rparr> else j) pre = pre"
    "map (\<lambda>j. if key j = key it then j\<lparr>quantity := q\<rparr> else j) its = its"
    by (simp_all add: map_idI)
  then show ?thesis by simp
qed

lemma apply_check:
  "items c = pre @ its \<Longrightarrow> distinct (map key (pre @ its)) \<Longrightarrow>
   items (fold (apply_intent shop) (fst (checkAutoAdded (filter is_auto_added its) sh)) c)
     = pre @ after_check its sh"
proof (induction its arbitrary: pre sh c)
  case Nil
  then show ?case by simp
next
  case (Cons it its)
  show ?case
  proof (cases "is_auto_added it")
    case False
    with Cons.IH [of c "pre @ [it]" sh] Cons.prems show ?thesis by simp
  next
    case auto: True
    show ?thesis
    proof (cases "jsmap_has sh (variantGid it)")
      case False
      have "items (cart_change (key it) 0 c) = filter (\<lambda>j. key j \<noteq> key it) (pre @ it # its)"
        using Cons.prems(1) by (simp add: items_cart_change)
      also have "\<dots> = pre @ its"
        using Cons.prems(2) by (rule remove_distinct)
      finally have "items (cart_change (key it) 0 c) = pre @ its" .
      moreover have "distinct (map key (pre @ its))" using Cons.prems(2) by simp
      ultimately have "items (fold (apply_intent shop)
          (fst (checkAutoAdded (filter is_auto_added its) sh)) (cart_change (key it) 0 c))
            = pre @ after_check its sh"
        by (rule Cons.IH)
      with auto False show ?thesis
        by (simp add: case_prod_beta)
    next
      case has: True
      let ?sh = "jsmap_delete sh (variantGid it)"
      have d: "distinct (map key ((pre @ [it\<lparr>quantity := 1\<rparr>]) @ its))"
        using Cons.prems(2) by simp
      show ?thesis
      proof (cases "quantity it = 1")
        case True
        then have "it\<lparr>quantity := 1\<rparr> = it" by simp
        with Cons.IH [of c "pre @ [it\<lparr>quantity := 1\<rparr>]" ?sh] d Cons.prems(1) auto has True
        show ?thesis
          by (simp add: case_prod_beta)
      next
        case False
        have "items (cart_change (key it) 1 c)
            = map (\<lambda>j. if key j = key it then j\<lparr>quantity := 1\<rparr> else j) (pre @ it # its)"
          using Cons.prems(1) by (simp add: items_cart_change)
        also have "\<dots> = pre @ it\<lparr>quantity := 1\<rparr> # its"
          using Cons.prems(2) by (rule update_distinct)
        finally have "items (cart_change (key it) 1 c) = (pre @ [it\<lparr>quantity := 1\<rparr>]) @ its"
          by simp
        from Cons.IH [OF this d, of ?sh] auto has False show ?thesis
          by (simp add: case_prod_beta)
      qed
    qed
  qed
qed

lemma apply_add:
  assumes "\<forall>(v, r) \<in> set sh. \<exists>n. v = gid_variant @ String n \<and> shop n \<noteq> None"
    and "distinct (map fst sh)"
    and "\<forall>(v, r) \<in> set sh. \<forall>it \<in> set (items c).
           String (variant_id it) = str_replace gid_variant [] v \<longrightarrow> \<not> is_auto_added it"
    and "\<forall>(v, r) \<in> set sh.
           (\<forall>it \<in> set (items c). String (variant_id it) \<noteq> str_replace gid_variant [] v)
           \<longrightarrow> (\<forall>it \<in> set (items c1). String (variant_id it) \<noteq> str_replace gid_variant [] v)"
  shows "items (fold (apply_intent shop) (addMissing sh c) c1) = added_lines shop sh c @ items c1"
  using assms
proof (induction sh arbitrary: c1)
  case Nil
  then show ?case by simp
next
  case (Cons p sh)
  obtain v r where p: "p = (v, r)" by (cases p)
  from Cons.prems(1) p obtain n pid pr
    where n: "v = gid_variant @ String n" "shop n = Some (pid, pr)"
    by auto
  then have strip: "str_replace gid_variant [] v = String n"
    by (simp add: str_replace_prefix)
  from n(1) have posted: "posted_id v = Some n"
    by (simp add: posted_id_gid)
  let ?f = "find (\<lambda>it. String (variant_id it) = String n) (items c)"
  have rest1: "\<forall>(v, r) \<in> set sh. \<exists>n. v = gid_variant @ String n \<and> shop n \<noteq> None"
    and rest2: "distinct (map fst sh)"
    and rest3: "\<forall>(v, r) \<in> set sh. \<forall>it \<in> set (items c).
           String (variant_id it) = str_replace gid_variant [] v \<longrightarrow> \<not> is_auto_added it"
    using Cons.prems by auto
  show ?case
  proof (cases ?f)
    case (Some e)
    then have "e \<in> set (items c)" "String (variant_id e) = String n"
      by (auto simp: find_Some_iff in_set_conv_nth)
    with Cons.prems(3) p strip have "\<not> is_auto_added e" by auto
    moreover have "items (fold (apply_intent shop) (addMissing sh c) c1)
        = added_lines shop sh c @ items c1"
      using rest1 rest2 rest3 Cons.prems(4) by (intro Cons.IH) auto
    ultimately show ?thesis
      using Some p strip by simp
  next
    case None
    then have "\<forall>it \<in> set (items c). String (variant_id it) \<noteq> String n"
      by (auto simp: find_None_iff)
    with Cons.prems(4) p strip
    have fresh: "\<forall>it \<in> set (items c1). String (variant_id it) \<noteq> String n"
      by auto
    then have "find (\<lambda>it. variant_id it = n \<and> properties it = Some auto_properties) (items c1) = None"
      by (auto simp: find_None_iff)
    then have step: "apply_intent shop (Add v 1) c1
        = c1\<lparr>items := gift_line n pid pr 1 # items c1, total_price := total_price c1 + pr * 1\<rparr>"
      using n strip by (simp add: posted posted_id_gid cart_add_def gift_line_def)
    let ?c1 = "c1\<lparr>items := gift_line n pid pr 1 # items c1, total_price := total_price c1 + pr * 1\<rparr>"
    have "\<forall>(v', r') \<in> set sh.
           (\<forall>it \<in> set (items c). String (variant_id it) \<noteq> str_replace gid_variant [] v')
           \<longrightarrow> (\<forall>it \<in> set (items ?c1). String (variant_id it) \<noteq> str_replace gid_variant [] v')"
    proof (intro ballI impI, clarify)
      fix v' r' it
      assume a: "(v', r') \<in> set sh"
        "\<forall>it \<in> set (items c). String (variant_id it) \<noteq> str_replace gid_variant [] v'"
        "it \<in> set (items ?c1)" "String (variant_id it) = str_replace gid_variant [] v'"
      from a(1) Cons.prems(2) p have "v' \<noteq> v" by (auto simp: image_iff)
      moreover from rest1 a(1) obtain n' where "v' = gid_variant @ String n'" by auto
      ultimately have ne: "str_replace gid_variant [] v' \<noteq> String n"
        using n(1) by (auto simp: str_replace_prefix)
      from a(3) consider "it = gift_line n pid pr 1" | "it \<in> set (items c1)" by auto
      then show False
      proof cases
        case 1
        with a(4) ne show False by (simp add: gift_line_def)
      next
        case 2
        with Cons.prems(4) a show False by auto
      qed
    qed
    with rest1 rest2 rest3
    have "items (fold (apply_intent shop) (addMissing sh c) ?c1) = added_lines shop sh c @ items ?c1"
      by (intro Cons.IH)
    with None p strip n step show ?thesis
      by (simp add: posted posted_id_gid)
  qed
qed

text \<open>What is known of the lines that stay and of the lines that are added.\<close>

lemma after_check_manual:
  "filter (\<lambda>it. \<not> is_auto_added it) (after_check its sh) = filter (\<lambda>it. \<not> is_auto_added it) its"
  by (induction its arbitrary: sh) simp_all

lemma after_check_auto:
  "it \<in> set (after_check its sh) \<Longrightarrow> is_auto_added it \<Longrightarrow>
     quantity it = 1 \<and> jsmap_has sh (variantGid it)"
proof (induction its arbitrary: sh)
  case Nil
  then show ?case by simp
next
  case (Cons a its)
  from Cons.prems Cons.IH [of sh] Cons.IH [of "jsmap_delete sh (variantGid a)"]
  show ?case
    by (auto simp: jsmap_has_delete split: if_splits)
qed

lemma after_check_variants:
  "variant_id ` set (after_check its sh) \<subseteq> variant_id ` set its"
  by (induction its arbitrary: sh) auto

lemma after_check_distinct:
  "distinct (map variant_id (filter is_auto_added (after_check its sh)))"
proof (induction its arbitrary: sh)
  case Nil
  then show ?case by simp
next
  case (Cons a its)
  have "variant_id j \<noteq> variant_id a"
    if "j \<in> set (after_check its (jsmap_delete sh (variantGid a)))" "is_auto_added j" for j
    using after_check_auto [OF that] by (auto simp: jsmap_has_delete variantGid_eq)
  then have "variant_id a \<notin>
      variant_id ` set (filter is_auto_added (after_check its (jsmap_delete sh (variantGid a))))"
    by force
  with Cons.IH show ?case
    by simp
qed

lemma after_check_kept:
  "jsmap_has sh v \<Longrightarrow> v \<in> variantGid ` set (filter is_auto_added its) \<Longrightarrow>
     \<exists>it \<in> set (after_check its sh). variantGid it = v"
proof (induction its arbitrary: sh)
  case Nil
  then show ?case by simp
next
  case (Cons a its)
  show ?case
  proof (cases "is_auto_added a \<and> variantGid a = v")
    case True
    with Cons.prems(1) show ?thesis by auto
  next
    case False
    with Cons.prems(2) have in_rest: "v \<in> variantGid ` set (filter is_auto_added its)"
      by (auto split: if_splits)
    have "\<exists>it \<in> set (after_check its sh'). variantGid it = v" if "jsmap_has sh' v" for sh'
      using that in_rest by (rule Cons.IH)
    from this [of sh] this [of "jsmap_delete sh (variantGid a)"] Cons.prems(1) False
    show ?thesis
      by (auto simp: jsmap_has_delete)
  qed
qed

lemma is_auto_added_gift_line: "is_auto_added (gift_line n pid pr q)"
  by (simp add: is_auto_added_def gift_line_def auto_properties_def)

lemma added_lines_props:
  assumes "\<forall>(v, r) \<in> set sh. \<exists>n. v = gid_variant @ String n \<and> shop n \<noteq> None"
    and "it \<in> set (added_lines shop sh c)"
  shows "is_auto_added it \<and> quantity it = 1 \<and> jsmap_has sh (variantGid it)
         \<and> (\<forall>j \<in> set (items c). variant_id j \<noteq> variant_id it)"
  using assms
proof (induction sh)
  case Nil
  then show ?case by simp
next
  case (Cons p sh)
  obtain v r where p: "p = (v, r)" by (cases p)
  from Cons.prems(1) p obtain n pid pr
    where n: "v = gid_variant @ String n" "shop n = Some (pid, pr)"
    by auto
  then have strip: "str_replace gid_variant [] v = String n"
    by (simp add: str_replace_prefix)
  from n(1) have posted: "posted_id v = Some n"
    by (simp add: posted_id_gid)
  have ih: "is_auto_added it \<and> quantity it = 1 \<and> jsmap_has (p # sh) (variantGid it)
         \<and> (\<forall>j \<in> set (items c). variant_id j \<noteq> variant_id it)"
    if "it \<in> set (added_lines shop sh c)"
    using Cons.IH [OF _ that] Cons.prems(1) by (auto simp: jsmap_has_def)
  from Cons.prems(2) p strip n
  consider "it \<in> set (added_lines shop sh c)"
    | "find (\<lambda>it. String (variant_id it) = String n) (items c) = None" "it = gift_line n pid pr 1"
    by (auto simp: posted posted_id_gid split: option.splits)
  then show ?case
  proof cases
    case 1
    then show ?thesis by (rule ih)
  next
    case 2
    then have "\<forall>j \<in> set (items c). variant_id j \<noteq> n"
      by (auto simp: find_None_iff)
    with 2 n p show ?thesis
      by (simp add: is_auto_added_gift_line) (simp add: gift_line_def jsmap_has_def variantGid_def)
  qed
qed

lemma added_lines_distinct:
  assumes "\<forall>(v, r) \<in> set sh. \<exists>n. v = gid_variant @ String n \<and> shop n \<noteq> None"
    and "distinct (map fst sh)"
  shows "distinct (map variant_id (added_lines shop sh c))"
  using assms
proof (induction sh)
  case Nil
  then show ?case by simp
next
  case (Cons p sh)
  obtain v r where p: "p = (v, r)" by (cases p)
  from Cons.prems(1) p obtain n pid pr
    where n: "v = gid_variant @ String n" "shop n = Some (pid, pr)"
    by auto
  then have strip: "str_replace gid_variant [] v = String n"
    by (simp add: str_replace_prefix)
  from n(1) have posted: "posted_id v = Some n"
    by (simp add: posted_id_gid)
  have rest: "\<forall>(v, r) \<in> set sh. \<exists>n. v = gid_variant @ String n \<and> shop n \<noteq> None"
    using Cons.prems(1) by simp
  have d: "distinct (map variant_id (added_lines shop sh c))"
    using Cons.prems by (intro Cons.IH) auto
  have "variant_id it \<noteq> n" if "it \<in> set (added_lines shop sh c)" for it
  proof
    assume "variant_id it = n"
    with added_lines_props [OF rest that] n(1) have "jsmap_has sh v"
      by (simp add: variantGid_def)
    with Cons.prems(2) p show False by (auto simp: jsmap_has_def)
  qed
  with d p strip n show ?case
    by (auto simp: posted posted_id_gid gift_line_def split: option.splits)
qed

lemma added_lines_present:
  assumes "\<forall>(v, r) \<in> set sh. \<exists>n. v = gid_variant @ String n \<and> shop n \<noteq> None"
    and "jsmap_has sh v"
    and "\<forall>j \<in> set (items c). String (variant_id j) \<noteq> str_replace gid_variant [] v"
  shows "\<exists>it \<in> set (added_lines shop sh c). String (variant_id it) = str_replace gid_variant [] v"
  using assms
proof (induction sh)
  case Nil
  then show ?case by (simp add: jsmap_has_def)
next
  case (Cons p sh)
  obtain v' r where p: "p = (v', r)" by (cases p)
  from Cons.prems(1) p obtain n pid pr
    where n: "v' = gid_variant @ String n" "shop n = Some (pid, pr)"
    by auto
  then have strip: "str_replace gid_variant [] v' = String n"
    by (simp add: str_replace_prefix)
  from n(1) have posted: "posted_id v' = Some n"
    by (simp add: posted_id_gid)
  show ?case
  proof (cases "v' = v")
    case True
    with Cons.prems(3) strip
    have "find (\<lambda>it. String (variant_id it) = String n) (items c) = None"
      by (auto simp: find_None_iff)
    moreover from posted True have "posted_id v = Some n"
      by simp
    ultimately show ?thesis
      using True p strip n by (simp add: gift_line_def)
  next
    case False
    with Cons.prems(2) p have "jsmap_has sh v" by (auto simp: jsmap_has_def)
    with Cons.prems have "\<exists>it \<in> set (added_lines shop sh c).
        String (variant_id it) = str_replace gid_variant [] v"
      by (intro Cons.IH) auto
    with p strip n show ?thesis
      by (auto simp: posted posted_id_gid split: option.splits)
  qed
qed

text \<open>The should-have map depends on the cart through the verdicts of the rules only.\<close>

lemma matchRules_cong:
  "\<forall>r \<in> set rs. evaluateRule r c1 = evaluateRule r c2 \<Longrightarrow>
     matchRules rs c1 sh seen = matchRules rs c2 sh seen"
  by (induction rs arbitrary: sh seen) simp_all

lemma jsmap_set_keys: "fst ` set (jsmap_set m k v) = insert k (fst ` set m)"
  by (induction m) auto

lemma jsmap_set_distinct: "distinct (map fst m) \<Longrightarrow> distinct (map fst (jsmap_set m k v))"
  by (induction m) (auto simp: jsmap_set_keys)

lemma matchRules_distinct:
  "distinct (map fst sh) \<Longrightarrow> distinct (map fst (matchRules rs c sh seen))"
  by (induction rs arbitrary: sh seen) (simp_all add: jsmap_set_distinct)

text \<open>After the requests of a cycle the cart is settled for the map of that cycle.\<close>

lemma items_apply_cycle:
  assumes keys: "distinct (map key (items c))"
    and gids: "\<forall>r \<in> set rs. \<exists>n. addVariantId (action r) = gid_variant @ String n \<and> shop n \<noteq> None"
  shows "items (apply_intents shop (cycleIntents rs c) c)
           = added_lines shop (snd (checkAutoAdded (autoAddedItems c) (shouldHaveVariants rs c))) c
             @ after_check (items c) (shouldHaveVariants rs c)"
    and "settled (shouldHaveVariants rs c) (items (apply_intents shop (cycleIntents rs c) c))"
    and "filter (\<lambda>it. \<not> is_auto_added it) (items (apply_intents shop (cycleIntents rs c) c))
           = filter (\<lambda>it. \<not> is_auto_added it) (items c)"
proof -
  let ?S = "shouldHaveVariants rs c"
  let ?T = "snd (checkAutoAdded (autoAddedItems c) ?S)"
  let ?c1 = "fold (apply_intent shop) (fst (checkAutoAdded (autoAddedItems c) ?S)) c"
  let ?after = "after_check (items c) ?S"
  let ?added = "added_lines shop ?T c"
  have T: "?T = filter (\<lambda>p. fst p \<notin> variantGid ` set (autoAddedItems c)) ?S"
    by (rule checkAutoAdded_rest)
  have S_gid: "\<exists>n. v = gid_variant @ String n \<and> shop n \<noteq> None" if "(v, r) \<in> set ?S" for v r
    using matchRules_entry [of v r rs c "[]" "{}"] that gids
    by (auto simp: shouldHaveVariants_def)
  have S_distinct: "distinct (map fst ?S)"
    unfolding shouldHaveVariants_def by (rule matchRules_distinct) simp
  have T_gid: "\<forall>(v, r) \<in> set ?T. \<exists>n. v = gid_variant @ String n \<and> shop n \<noteq> None"
    using S_gid by (auto simp: T)
  have T_distinct: "distinct (map fst ?T)"
    unfolding T using S_distinct by (rule distinct_map_filter)
  have c1: "items ?c1 = ?after"
    using apply_check [of c "[]" "items c" shop ?S] keys by (simp add: autoAddedItems_def)
  have T_manual: "\<not> is_auto_added it"
    if "(v, r) \<in> set ?T" "it \<in> set (items c)" "String (variant_id it) = str_replace gid_variant [] v"
    for v r it
  proof
    assume "is_auto_added it"
    with that(2) have "variantGid it \<in> variantGid ` set (autoAddedItems c)"
      by (simp add: autoAddedItems_def)
    moreover from T_gid that(1) obtain n where "v = gid_variant @ String n" by auto
    with that(3) have "variantGid it = v"
      by (simp add: variantGid_def str_replace_prefix)
    ultimately show False using that(1) by (auto simp: T)
  qed
  have fresh: "String (variant_id it) \<noteq> str_replace gid_variant [] v"
    if "\<forall>j \<in> set (items c). String (variant_id j) \<noteq> str_replace gid_variant [] v"
      "it \<in> set (items ?c1)" for v it
  proof -
    from that(2) c1 after_check_variants [of "items c" ?S]
    obtain j where "j \<in> set (items c)" "variant_id j = variant_id it" by force
    with that(1) show ?thesis by metis
  qed
  have "items (fold (apply_intent shop) (addMissing ?T c) ?c1) = ?added @ items ?c1"
    using T_gid T_distinct T_manual fresh by (intro apply_add) blast+
  then show items': "items (apply_intents shop (cycleIntents rs c) c) = ?added @ ?after"
    by (simp add: apply_intents_def cycleIntents_conv c1)
  have s1: "quantity it = 1 \<and> jsmap_has ?S (variantGid it)"
    if "it \<in> set (?added @ ?after)" "is_auto_added it" for it
  proof (cases "it \<in> set ?added")
    case True
    from added_lines_props [OF T_gid this] show ?thesis
      by (auto simp: T jsmap_has_def)
  next
    case False
    with that have "it \<in> set ?after" by simp
    from after_check_auto [OF this that(2)] show ?thesis .
  qed
  have added_auto: "filter is_auto_added ?added = ?added"
    using added_lines_props [OF T_gid] by (simp add: filter_id_conv)
  have "variant_id a \<noteq> variant_id b" if "a \<in> set ?added" "b \<in> set ?after" for a b
  proof -
    from that(2) after_check_variants [of "items c" ?S]
    obtain j where "j \<in> set (items c)" "variant_id j = variant_id b" by force
    with added_lines_props [OF T_gid that(1)] show ?thesis by metis
  qed
  then have s2: "distinct (map variant_id (filter is_auto_added (?added @ ?after)))"
    using added_lines_distinct [OF T_gid T_distinct, of c] after_check_distinct [of "items c" ?S]
    by (auto simp: added_auto)
  have s3: "\<exists>it \<in> set (?added @ ?after). String (variant_id it) = str_replace gid_variant [] v"
    if "v \<in> fst ` set ?S" for v
  proof (cases "v \<in> variantGid ` set (autoAddedItems c)")
    case True
    from that have "jsmap_has ?S v" by (simp add: jsmap_has_def)
    from after_check_kept [OF this] True
    obtain it where "it \<in> set ?after" "variantGid it = v"
      by (auto simp: autoAddedItems_def)
    with numericId_variantGid [of it] show ?thesis by auto
  next
    case False
    with that obtain r where vr: "(v, r) \<in> set ?T" by (auto simp: T)
    show ?thesis
    proof (cases "\<exists>j \<in> set (items c). String (variant_id j) = str_replace gid_variant [] v")
      case True
      then obtain j where j: "j \<in> set (items c)"
        "String (variant_id j) = str_replace gid_variant [] v" by blast
      with T_manual [OF vr] have "\<not> is_auto_added j" by blast
      with j(1) have "j \<in> set (filter (\<lambda>it. \<not> is_auto_added it) (items c))" by simp
      then have "j \<in> set (filter (\<lambda>it. \<not> is_auto_added it) ?after)"
        by (simp only: after_check_manual)
      with j(2) show ?thesis by auto
    next
      case False
      moreover from vr have "jsmap_has ?T v" by (force simp: jsmap_has_def)
      ultimately have "\<exists>it \<in> set ?added. String (variant_id it) = str_replace gid_variant [] v"
        using T_gid by (intro added_lines_present) auto
      then show ?thesis by auto
    qed
  qed
  from s1 s2 s3 show "settled ?S (items (apply_intents shop (cycleIntents rs c) c))"
    unfolding items' settled_def by blast
  have "filter (\<lambda>it. \<not> is_auto_added it) ?added = []"
    using added_lines_props [OF T_gid] by (simp add: filter_empty_conv)
  then show "filter (\<lambda>it. \<not> is_auto_added it) (items (apply_intents shop (cycleIntents rs c) c))
      = filter (\<lambda>it. \<not> is_auto_added it) (items c)"
    unfolding items' by (simp add: after_check_manual)
qed

text \<open>One cycle on a cart of 50.00, the request done, and the cycle after it.\<close>

lemma two_tier_first_cycle:
  "cycleIntents two_tier_rules cart_50 = [Add ''gid://shopify/ProductVariant/101'' 1]"
  by (simp add: cycle_simps)

lemma two_tier_applied:
  "apply_intents gift_shop [Add ''gid://shopify/ProductVariant/101'' 1] cart_50 =
     \<lparr>items = [gift_item ''101:_auto_added'' 101 9 1 1000, manual_item ''k1'' 11 1 1 5000],
      total_price = 6000, token = ''tok''\<rparr>"
  by (simp add: cycle_simps apply_simps)

lemma two_tier_second_cycle:
  "cycleIntents two_tier_rules
     \<lparr>items = [gift_item ''101:_auto_added'' 101 9 1 1000, manual_item ''k1'' 11 1 1 5000],
      total_price = 6000, token = ''tok''\<rparr>
   = [Add ''gid://shopify/ProductVariant/102'' 1]"
  by (simp add: cycle_simps)

text \<open>
  Two rules on the cart total: from 50 on the first gift, from 60 on the second. The
  cart holds one item of 50.00 and the first gift costs 10.00. The first cycle adds the
  first gift, which brings the total to 60.00; the second cycle then finds the second
  rule matching and adds the second gift (C1 as stated fails here).
\<close>

theorem second_cycle_adds_next_tier:
  "cycleIntents two_tier_rules
     (apply_intents gift_shop (cycleIntents two_tier_rules cart_50) cart_50)
   = [Add ''gid://shopify/ProductVariant/102'' 1]"
  by (simp only: two_tier_first_cycle two_tier_applied two_tier_second_cycle)

text \<open>
  C1, amended: take a cart whose line keys are distinct and rules whose target variants
  are variant GIDs of variants that the shop has. If no rule has a condition on the cart
  total, or if the requests of the cycle leave the cart total as it was, then after the
  requests of one cycle are all done a second cycle with the same rules requests nothing.
\<close>

theorem second_cycle_empty:
  assumes "distinct (map key (items c))"
    and "\<forall>r \<in> set rs. \<exists>n. addVariantId (action r) = gid_variant @ String n \<and> shop n \<noteq> None"
    and "(\<forall>r \<in> set rs. \<forall>cond \<in> set (conditions r). ctype cond \<noteq> ''cart_total_gte'')
         \<or> total_price (apply_intents shop (cycleIntents rs c) c) = total_price c"
  shows "cycleIntents rs (apply_intents shop (cycleIntents rs c) c) = []"
proof -
  let ?c' = "apply_intents shop (cycleIntents rs c) c"
  note applied = items_apply_cycle [OF assms(1,2)]
  have "evaluateRule r ?c' = evaluateRule r c" if "r \<in> set rs" for r
  proof -
    from assms(3) that
    have "(\<forall>cond \<in> set (conditions r). ctype cond \<noteq> ''cart_total_gte'')
        \<or> total_price ?c' = total_price c"
      by blast
    with applied(3) have "conditionsPass (conditions r) ?c' = conditionsPass (conditions r) c"
      by (rule conditionsPass_stable)
    then show ?thesis by (simp add: evaluateRule_def)
  qed
  then have "shouldHaveVariants rs ?c' = shouldHaveVariants rs c"
    unfolding shouldHaveVariants_def by (intro matchRules_cong) simp
  with settled_no_intents [OF applied(2)] show ?thesis
    by (simp add: cycleIntents_conv)
qed

lemma String_101: "String 101 = ''101''" "String 102 = ''102''"
  by (simp_all add: String.simps digit_char_def)

theorem second_cycle_empty_witness:
  "distinct (map key (items cart_mixed))
   \<and> map (\<lambda>r. addVariantId (action r)) product_rules
        = [gid_variant @ String 101, gid_variant @ String 102]
   \<and> gift_shop 101 \<noteq> None \<and> gift_shop 102 \<noteq> None
   \<and> concat (map (\<lambda>r. map ctype (conditions r)) product_rules)
        = [''product_quantity_in_range'', ''product_quantity_in_range'']
   \<and> cycleIntents product_rules cart_mixed
        = [SetQuantity ''k2'' 1, Remove ''k4'', Add ''gid://shopify/ProductVariant/101'' 1]
   \<and> cycleIntents product_rules
        (apply_intents gift_shop (cycleIntents product_rules cart_mixed) cart_mixed) = []
   \<and> distinct (map key (items cart_60))
   \<and> map (\<lambda>r. addVariantId (action r)) two_tier_rules
        = [gid_variant @ String 101, gid_variant @ String 102]
   \<and> free_shop 101 \<noteq> None \<and> free_shop 102 \<noteq> None
   \<and> cycleIntents two_tier_rules cart_60
        = [Add ''gid://shopify/ProductVariant/101'' 1, Add ''gid://shopify/ProductVariant/102'' 1]
   \<and> total_price (apply_intents free_shop (cycleIntents two_tier_rules cart_60) cart_60)
        = total_price cart_60
   \<and> cycleIntents two_tier_rules
        (apply_intents free_shop (cycleIntents two_tier_rules cart_60) cart_60) = []"
proof -
  have h1: "distinct (map key (items cart_mixed))"
    by (simp add: cart_mixed_def manual_item_def gift_item_def)
  have t: "map (\<lambda>r. addVariantId (action r)) product_rules
        = [gid_variant @ String 101, gid_variant @ String 102]"
    and s: "gift_shop 101 \<noteq> None" "gift_shop 102 \<noteq> None"
    by (simp_all add: product_rules_def rule_of_def String_101 gid_variant_def gift_shop_def)
  have k: "concat (map (\<lambda>r. map ctype (conditions r)) product_rules)
        = [''product_quantity_in_range'', ''product_quantity_in_range'']"
    by (simp add: product_rules_def rule_of_def product_range_def cond_of_def)
  have "\<forall>v \<in> set (map (\<lambda>r. addVariantId (action r)) product_rules).
      \<exists>n. v = gid_variant @ String n \<and> gift_shop n \<noteq> None"
    unfolding t using s by auto
  then have h2: "\<forall>r \<in> set product_rules.
      \<exists>n. addVariantId (action r) = gid_variant @ String n \<and> gift_shop n \<noteq> None"
    by simp
  have "\<forall>x \<in> set (concat (map (\<lambda>r. map ctype (conditions r)) product_rules)).
      x \<noteq> ''cart_total_gte''"
    unfolding k by simp
  then have h3: "\<forall>r \<in> set product_rules. \<forall>cond \<in> set (conditions r). ctype cond \<noteq> ''cart_total_gte''"
    by simp
  have e: "cycleIntents product_rules cart_mixed
      = [SetQuantity ''k2'' 1, Remove ''k4'', Add ''gid://shopify/ProductVariant/101'' 1]"
    by (simp add: cycle_simps)
  from h3 have "(\<forall>r \<in> set product_rules. \<forall>cond \<in> set (conditions r). ctype cond \<noteq> ''cart_total_gte'')
      \<or> total_price (apply_intents gift_shop (cycleIntents product_rules cart_mixed) cart_mixed)
          = total_price cart_mixed" ..
  from second_cycle_empty [OF h1 h2 this]
  have first: "cycleIntents product_rules
      (apply_intents gift_shop (cycleIntents product_rules cart_mixed) cart_mixed) = []" .
  have f1: "distinct (map key (items cart_60))"
    by (simp add: cart_60_def manual_item_def)
  have ft: "map (\<lambda>r. addVariantId (action r)) two_tier_rules
        = [gid_variant @ String 101, gid_variant @ String 102]"
    and fs: "free_shop 101 \<noteq> None" "free_shop 102 \<noteq> None"
    by (simp_all add: two_tier_rules_def rule_of_def String_101 gid_variant_def free_shop_def)
  have "\<forall>v \<in> set (map (\<lambda>r. addVariantId (action r)) two_tier_rules).
      \<exists>n. v = gid_variant @ String n \<and> free_shop n \<noteq> None"
    unfolding ft using fs by auto
  then have f2: "\<forall>r \<in> set two_tier_rules.
      \<exists>n. addVariantId (action r) = gid_variant @ String n \<and> free_shop n \<noteq> None"
    by simp
  have fe: "cycleIntents two_tier_rules cart_60
      = [Add ''gid://shopify/ProductVariant/101'' 1, Add ''gid://shopify/ProductVariant/102'' 1]"
    by (simp add: cycle_simps)
  have f3: "total_price (apply_intents free_shop (cycleIntents two_tier_rules cart_60) cart_60)
      = total_price cart_60"
    unfolding fe by (simp add: cycle_simps apply_simps)
  then have "(\<forall>r \<in> set two_tier_rules. \<forall>cond \<in> set (conditions r). ctype cond \<noteq> ''cart_total_gte'')
      \<or> total_price (apply_intents free_shop (cycleIntents two_tier_rules cart_60) cart_60)
          = total_price cart_60" ..
  from second_cycle_empty [OF f1 f2 this]
  have second: "cycleIntents two_tier_rules
      (apply_intents free_shop (cycleIntents two_tier_rules cart_60) cart_60) = []" .
  from h1 t s k e first f1 ft fs fe f3 second show ?thesis
    by (intro conjI)
qed

end
